theory Spec2Isabelle
  imports Main "HOL-Library.Sublist" "HOL-Library.AList" "HOL-Library.List_Lexorder"
    "HOL-Library.Char_ord"
begin

section \<open>Strings as the generator uses them\<close>

text \<open>
  The generator (\<^verbatim>\<open>osdr_filter_options_generator.py\<close>) compares taxonomy values through
  \<^verbatim>\<open>str.strip\<close>, \<^verbatim>\<open>str.lower\<close>, \<^verbatim>\<open>str.split\<close>, \<^verbatim>\<open>str.startswith\<close> and the substring
  test \<^verbatim>\<open>x in s\<close>. A string is a list of characters, and a character is a code point
  from 0 to 255 (Latin-1); a character beyond U+00FF is not in the model. In this range
  \<^verbatim>\<open>str.isspace\<close> holds of the codes 9 to 13, 28 to 32, 133 (U+0085) and 160 (U+00A0), and
  \<^verbatim>\<open>str.lower\<close> adds 32 to the codes 65 to 90 (\<^verbatim>\<open>A\<close> to \<^verbatim>\<open>Z\<close>) and 192 to 222 except 215 (the
  accented capitals, without the multiplication sign) and keeps every other character.
\<close>

definition py_isspace :: "char \<Rightarrow> bool" where
  "py_isspace c =
     (let n = (of_char c :: nat)
      in (9 \<le> n \<and> n \<le> 13) \<or> (28 \<le> n \<and> n \<le> 32) \<or> n = 133 \<or> n = 160)"

definition py_isupper_code :: "nat \<Rightarrow> bool" where
  "py_isupper_code n = ((65 \<le> n \<and> n \<le> 90) \<or> (192 \<le> n \<and> n \<le> 222 \<and> n \<noteq> 215))"

definition py_lower_char :: "char \<Rightarrow> char" where
  "py_lower_char c =
     (let n = (of_char c :: nat) in if py_isupper_code n then char_of (n + 32) else c)"

definition py_lower :: "string \<Rightarrow> string" where
  "py_lower s = map py_lower_char s"

definition py_strip :: "string \<Rightarrow> string" where
  "py_strip s = rev (dropWhile py_isspace (rev (dropWhile py_isspace s)))"

text \<open>\<^verbatim>\<open>x in s\<close> on strings: \<open>x\<close> occurs in \<open>s\<close> as a contiguous piece.\<close>

fun py_in :: "string \<Rightarrow> string \<Rightarrow> bool" where
  "py_in x [] = (x = [])"
| "py_in x (c # cs) = (prefix x (c # cs) \<or> py_in x cs)"

text \<open>\<^verbatim>\<open>any(x in s for x in xs)\<close>.\<close>

definition py_any_in :: "string list \<Rightarrow> string \<Rightarrow> bool" where
  "py_any_in xs s = list_ex (\<lambda>x. py_in x s) xs"

text \<open>
  \<^verbatim>\<open>s.split(sep)\<close> for a one-character separator: every occurrence of the separator ends
  a piece, so a string with \<open>n\<close> separators gives \<open>n + 1\<close> pieces (some possibly empty).
\<close>

fun split_acc :: "char \<Rightarrow> string \<Rightarrow> string \<Rightarrow> string list" where
  "split_acc sep acc [] = [rev acc]"
| "split_acc sep acc (c # cs) =
     (if c = sep then rev acc # split_acc sep [] cs else split_acc sep (c # acc) cs)"

definition py_split :: "char \<Rightarrow> string \<Rightarrow> string list" where
  "py_split sep s = split_acc sep [] s"

section \<open>The normalizer\<close>

text \<open>
  \<^verbatim>\<open>norm\<close> (lines 151 to 155): the empty string for a falsy argument, \<^verbatim>\<open>s.strip().lower()\<close>
  otherwise. On a string the first branch is taken by the empty string only, and
  stripping and lower-casing the empty string gives the empty string again.
\<close>

definition norm :: "string \<Rightarrow> string" where
  "norm s = (if s = [] then [] else py_lower (py_strip s))"

section \<open>The taxonomy document and the index\<close>

text \<open>
  The groupings are the six fixed keys of the dictionaries of lines 161 to 167 and 227 to
  234: \<^verbatim>\<open>Project Type\<close>, \<^verbatim>\<open>Assay technology type\<close>, \<^verbatim>\<open>Factor\<close>, \<^verbatim>\<open>Organism\<close>,
  \<^verbatim>\<open>Material type\<close> and \<^verbatim>\<open>Mission\<close>.
\<close>

datatype grouping =
  Project_Type | Assay_technology_type | Factor | Organism | Material_type | Mission

fun grouping_name :: "grouping \<Rightarrow> string" where
  "grouping_name Project_Type = ''Project Type''"
| "grouping_name Assay_technology_type = ''Assay technology type''"
| "grouping_name Factor = ''Factor''"
| "grouping_name Organism = ''Organism''"
| "grouping_name Material_type = ''Material type''"
| "grouping_name Mission = ''Mission''"

text \<open>
  An entry of the downloaded document is a JSON object read through \<^verbatim>\<open>.get\<close>. Its
  \<^verbatim>\<open>displayValue\<close> may be missing, \<^verbatim>\<open>null\<close> or a string; \<^verbatim>\<open>values\<close> is a list of strings
  and \<^verbatim>\<open>children\<close> a list of entries, and a missing list reads as the empty list.
\<close>

datatype label = Missing | Null | Text string

datatype node =
  Node (displayValue: label) (node_values: "string list") (children: "node list")

text \<open>The exceptions that reach \<^verbatim>\<open>main\<close>.\<close>

datatype error = ValueError | IndexError | TypeError | FetchError

text \<open>
  A grouping's categories are a Python dictionary from category name to a set of raw
  values. Its insertion order decides \<^verbatim>\<open>find_category_for_value\<close>, so it is an
  association list: assignment to a present key keeps the key's place, assignment to a
  new key appends it (\<open>AList.update\<close>).
\<close>

type_synonym catmap = "(string \<times> string set) list"

type_synonym taxonomy_index = "grouping \<Rightarrow> catmap option"

text \<open>\<^verbatim>\<open>d[k]\<close> on a present key and on a \<^verbatim>\<open>defaultdict(set)\<close>, \<^verbatim>\<open>d[k].add(v)\<close>.\<close>

definition dict_get :: "catmap \<Rightarrow> string \<Rightarrow> string set" where
  "dict_get d k = (case map_of d k of Some s \<Rightarrow> s | None \<Rightarrow> {})"

definition set_add :: "catmap \<Rightarrow> string \<Rightarrow> string \<Rightarrow> catmap" where
  "set_add d k v = AList.update k (insert v (dict_get d k)) d"

text \<open>\<^verbatim>\<open>if k not in d: d[k] = set()\<close> (lines 198 and 211).\<close>

definition ensure_key :: "catmap \<Rightarrow> string \<Rightarrow> catmap" where
  "ensure_key d k = (if map_of d k = None then AList.update k {} d else d)"

section \<open>The structure extractor\<close>

text \<open>
  Lines 172 to 186. \<^verbatim>\<open>item.get('displayValue', '')\<close> is the empty string for a missing label
  and \<^verbatim>\<open>None\<close> for a \<^verbatim>\<open>null\<close> one. The first branch tests the values only; the second
  branch starts with \<^verbatim>\<open>'Assay Type' in display\<close>, which raises \<^verbatim>\<open>TypeError\<close> when \<^verbatim>\<open>display\<close>
  is \<^verbatim>\<open>None\<close>.
\<close>

definition identify_grouping :: "node \<Rightarrow> error + grouping option" where
  "identify_grouping item =
     (let display = (case displayValue item of
                       Missing \<Rightarrow> Some [] | Null \<Rightarrow> None | Text d \<Rightarrow> Some d);
          vs = node_values item
      in if ''Project Type'' \<in> set vs then Inr (Some Project_Type)
         else (case display of
                 None \<Rightarrow> Inl TypeError
               | Some d \<Rightarrow>
                   if py_in ''Assay Type'' d \<or> ''Study Assay Technology Type'' \<in> set vs
                     then Inr (Some Assay_technology_type)
                   else if ''organism'' \<in> set vs then Inr (Some Organism)
                   else if py_in ''Tissue'' d \<or> ''material type'' \<in> set vs
                     then Inr (Some Material_type)
                   else if py_in ''Factor'' d \<or> ''Study Factor Name'' \<in> set vs
                     then Inr (Some Factor)
                   else Inr None))"

text \<open>
  \<^verbatim>\<open>child.get('displayValue', child.get('values', [''])[0] if child.get('values') else '')\<close>
  (lines 193 and 208): the label when the key is there (\<open>None\<close> for a \<^verbatim>\<open>null\<close> label),
  otherwise the first value, or the empty string when there is none.
\<close>

definition label_or_first_value :: "node \<Rightarrow> string option" where
  "label_or_first_value n =
     (case displayValue n of
        Text d \<Rightarrow> Some d
      | Null \<Rightarrow> None
      | Missing \<Rightarrow> Some (case node_values n of [] \<Rightarrow> [] | v # _ \<Rightarrow> v))"

text \<open>Lines 193 to 196: \<^verbatim>\<open>if not category\<close> holds of \<^verbatim>\<open>None\<close> and of the empty string.\<close>

definition category_name :: "node \<Rightarrow> string" where
  "category_name child =
     (case label_or_first_value child of
        None \<Rightarrow> ''Uncategorized''
      | Some category \<Rightarrow> if category = [] then ''Uncategorized'' else category)"

text \<open>
  Lines 208 and 209: the f-string \<^verbatim>\<open>f"{category}|{subcategory}"\<close> writes \<^verbatim>\<open>None\<close> as the
  text \<^verbatim>\<open>None\<close>.
\<close>

definition full_category_name :: "string \<Rightarrow> node \<Rightarrow> string" where
  "full_category_name category subchild =
     category @ ''|'' @
       (case label_or_first_value subchild of None \<Rightarrow> ''None'' | Some subcategory \<Rightarrow> subcategory)"

text \<open>\<^verbatim>\<open>for val in values: if val: d[k].add(val)\<close> (lines 202 and 214).\<close>

fun add_values :: "catmap \<Rightarrow> string \<Rightarrow> string list \<Rightarrow> catmap" where
  "add_values d k [] = d"
| "add_values d k (val # rest) = add_values (if val \<noteq> [] then set_add d k val else d) k rest"

definition extract_subchild :: "string \<Rightarrow> catmap \<Rightarrow> node \<Rightarrow> catmap" where
  "extract_subchild category d subchild =
     (let full_category = full_category_name category subchild
      in add_values (ensure_key d full_category) full_category (node_values subchild))"

definition extract_child :: "catmap \<Rightarrow> node \<Rightarrow> catmap" where
  "extract_child d child =
     (let category = category_name child;
          d1 = add_values (ensure_key d category) category (node_values child)
      in foldl (extract_subchild category) d1 (children child))"

text \<open>
  One top-level entry (lines 171 to 216). \<^verbatim>\<open>structure[grouping]\<close> is always there: the
  dictionary starts with the five keys that \<open>identify_grouping\<close> can return.
\<close>

definition extract_item :: "taxonomy_index \<Rightarrow> node \<Rightarrow> error + taxonomy_index" where
  "extract_item structure item =
     (case identify_grouping item of
        Inl e \<Rightarrow> Inl e
      | Inr None \<Rightarrow> Inr structure
      | Inr (Some g) \<Rightarrow>
          (case structure g of
             None \<Rightarrow> Inr structure
           | Some d \<Rightarrow> Inr (structure(g \<mapsto> foldl extract_child d (children item)))))"

text \<open>The loop of line 171 over the entries; an exception ends it.\<close>

fun extract_items :: "taxonomy_index \<Rightarrow> node list \<Rightarrow> error + taxonomy_index" where
  "extract_items structure [] = Inr structure"
| "extract_items structure (item # items) =
     (case extract_item structure item of
        Inl e \<Rightarrow> Inl e
      | Inr structure' \<Rightarrow> extract_items structure' items)"

definition empty_structure :: taxonomy_index where
  "empty_structure =
     [Project_Type \<mapsto> [], Assay_technology_type \<mapsto> [], Factor \<mapsto> [],
      Organism \<mapsto> [], Material_type \<mapsto> []]"

text \<open>The argument is \<^verbatim>\<open>current_json.get('study', [])\<close>.\<close>

definition extract_existing_structure :: "node list \<Rightarrow> error + taxonomy_index" where
  "extract_existing_structure study_section = extract_items empty_structure study_section"

section \<open>The generator's state\<close>

text \<open>
  An observation feed is the \<^verbatim>\<open>columns\<close> and \<^verbatim>\<open>data\<close> of a response. A cell is a JSON
  string or \<^verbatim>\<open>null\<close> (\<open>None\<close>).
\<close>

type_synonym cell = "string option"

record feed =
  columns :: "string list"
  data :: "cell list list"

record generator =
  assay_data :: feed
  factor_data :: feed
  organism_data :: feed
  material_data :: feed
  mission_data :: feed
  existing_structure :: taxonomy_index
  new_json :: "grouping \<Rightarrow> catmap"
  additions :: "(grouping \<times> string \<times> string) list"
  unmapped :: "(grouping \<times> string \<times> cell) list"
  all_osd_ids :: "cell set"

text \<open>
  \<^verbatim>\<open>initialize_from_existing\<close> (lines 225 to 241): six empty \<^verbatim>\<open>defaultdict(set)\<close>, then
  every category of the existing structure assigned a copy of its set.
\<close>

definition initialize_from_existing :: "taxonomy_index \<Rightarrow> grouping \<Rightarrow> catmap" where
  "initialize_from_existing es g =
     (case es g of
        None \<Rightarrow> []
      | Some categories \<Rightarrow>
          foldl (\<lambda>d (category, vs). AList.update category vs d) [] categories)"

text \<open>
  The constructor after the downloads: the extraction of line 54, which may raise, and
  the fields set in lines 57 to 62 from the extracted structure.
\<close>

definition new_generator ::
  "taxonomy_index \<Rightarrow> feed \<Rightarrow> feed \<Rightarrow> feed \<Rightarrow> feed \<Rightarrow> feed \<Rightarrow> generator" where
  "new_generator es assay factor organism material mission =
     \<lparr>assay_data = assay, factor_data = factor, organism_data = organism,
      material_data = material, mission_data = mission,
      existing_structure = es,
      new_json = initialize_from_existing es,
      additions = [], unmapped = [], all_osd_ids = {}\<rparr>"

definition init_generator ::
  "node list \<Rightarrow> feed \<Rightarrow> feed \<Rightarrow> feed \<Rightarrow> feed \<Rightarrow> feed \<Rightarrow> error + generator" where
  "init_generator study_section assay factor organism material mission =
     (case extract_existing_structure study_section of
        Inl e \<Rightarrow> Inl e
      | Inr es \<Rightarrow> Inr (new_generator es assay factor organism material mission))"

section \<open>The reconciliation engine\<close>

text \<open>\<^verbatim>\<open>find_category_for_value\<close> (lines 243 to 256).\<close>

definition find_category_for_value :: "generator \<Rightarrow> string \<Rightarrow> grouping \<Rightarrow> string option" where
  "find_category_for_value self v g =
     (let norm_val = norm v
      in case existing_structure self g of
           None \<Rightarrow> None
         | Some categories \<Rightarrow>
             map_option fst
               (find (\<lambda>(category, vs). \<exists>existing_val \<in> vs. norm existing_val = norm_val)
                  categories))"

text \<open>
  The two branches that lines 274 to 284 share with the Factor, Organism and Material
  blocks: into the matched category with an addition record, or into the grouping's
  \<^verbatim>\<open>Other\<close> category with an unmapped record. \<^verbatim>\<open>if category:\<close> is false for \<^verbatim>\<open>None\<close> and
  for an empty category name.
\<close>

definition add_to_category :: "grouping \<Rightarrow> string \<Rightarrow> string \<Rightarrow> generator \<Rightarrow> generator" where
  "add_to_category g category v self =
     (if v \<notin> dict_get (new_json self g) category
      then self\<lparr>new_json := (new_json self)(g := set_add (new_json self g) category v),
                additions := additions self @ [(g, category, v)]\<rparr>
      else self)"

definition add_to_other ::
  "grouping \<Rightarrow> string \<Rightarrow> string \<Rightarrow> cell \<Rightarrow> generator \<Rightarrow> generator" where
  "add_to_other g other v osd_id self =
     (if v \<notin> dict_get (new_json self g) other
      then self\<lparr>new_json := (new_json self)(g := set_add (new_json self g) other v),
                unmapped := unmapped self @ [(g, v, osd_id)]\<rparr>
      else self)"

definition place_value ::
  "grouping \<Rightarrow> string \<Rightarrow> string \<Rightarrow> cell \<Rightarrow> generator \<Rightarrow> generator" where
  "place_value g other v osd_id self =
     (case find_category_for_value self v g of
        None \<Rightarrow> add_to_other g other v osd_id self
      | Some category \<Rightarrow>
          if category \<noteq> [] then add_to_category g category v self
          else add_to_other g other v osd_id self)"

text \<open>\<^verbatim>\<open>list.index\<close>: the first position, \<^verbatim>\<open>ValueError\<close> (here \<open>None\<close>) when there is none.\<close>

fun index_of :: "'a \<Rightarrow> 'a list \<Rightarrow> nat option" where
  "index_of x [] = None"
| "index_of x (y # ys) = (if y = x then Some 0 else map_option Suc (index_of x ys))"

text \<open>
  The row loop of the Assay, Organism and Material blocks (lines 265 to 284, 305 to 322,
  327 to 344), which differ in the grouping, the column and the \<^verbatim>\<open>Other\<close> category only.
  \<^verbatim>\<open>row[0]\<close> and \<^verbatim>\<open>row[col_idx]\<close> raise \<^verbatim>\<open>IndexError\<close> on a row that is too short. A row
  whose value is \<^verbatim>\<open>null\<close> or the empty string is skipped; the subject-identifier \<^verbatim>\<open>row[0]\<close>
  is used as it is, \<^verbatim>\<open>null\<close> included.
\<close>

fun process_rows ::
  "grouping \<Rightarrow> string \<Rightarrow> nat \<Rightarrow> cell list list \<Rightarrow> generator \<Rightarrow> error + generator" where
  "process_rows g other col_idx [] self = Inr self"
| "process_rows g other col_idx (row # rows) self =
     (case row of
        [] \<Rightarrow> Inl IndexError
      | osd_id # _ \<Rightarrow>
          if \<not> col_idx < length row then Inl IndexError
          else (case row ! col_idx of
                  None \<Rightarrow> process_rows g other col_idx rows self
                | Some v \<Rightarrow>
                    if v = [] then process_rows g other col_idx rows self
                    else process_rows g other col_idx rows
                           (place_value g other v osd_id
                              (self\<lparr>all_osd_ids := insert osd_id (all_osd_ids self)\<rparr>))))"

definition process_feed ::
  "grouping \<Rightarrow> string \<Rightarrow> string \<Rightarrow> feed \<Rightarrow> generator \<Rightarrow> error + generator" where
  "process_feed g other column fd self =
     (case index_of column (columns fd) of
        None \<Rightarrow> Inl ValueError
      | Some col_idx \<Rightarrow> process_rows g other col_idx (data fd) self)"

text \<open>The Factor block (lines 288 to 300): column names only, no row is read.\<close>

definition factor_cols :: "generator \<Rightarrow> string list" where
  "factor_cols self =
     filter (\<lambda>col. py_in ''factor value'' (py_lower col)) (columns (factor_data self))"

definition factor_name :: "string \<Rightarrow> string" where
  "factor_name col = last (py_split CHR ''.'' col)"

definition process_factors :: "generator \<Rightarrow> generator" where
  "process_factors self =
     foldl (\<lambda>s col. place_value Factor ''other'' (factor_name col) (Some ''schema'') s)
       self (factor_cols self)"

section \<open>The mission classifier\<close>

text \<open>The \<^verbatim>\<open>if\<close>/\<^verbatim>\<open>elif\<close> chain of lines 366 to 389.\<close>

definition classify_mission :: "string \<Rightarrow> string" where
  "classify_mission mission =
     (let mission_lower = norm mission
      in if py_any_in [''expedition'', ''increment'', ''iss''] mission_lower
           then ''ISS Expeditions''
         else if py_any_in [''sts-'', ''sts '', ''shuttle'', ''sls-''] mission_lower
           then ''Space Shuttle''
         else if prefix ''RR-'' mission \<or> py_in ''rodent research'' mission_lower
           then ''Rodent Research''
         else if py_any_in [''bion'', ''cosmos''] mission_lower
           then ''Bion/Cosmos''
         else if py_any_in [''bric-'', ''apex-'', ''veg-'', ''ffl'', ''cbtm'', ''cerise'']
                   mission_lower
           then ''Payload Investigations''
         else if py_any_in [''ground'', ''bsl'', ''baseline''] mission_lower
           then ''Ground Control''
         else if py_any_in [''gamma_irradiation'', ''heavy_ion'', ''hze'',
                   ''proton_irradiation'', ''x-ray_irradiation'', ''irradiation'',
                   ''radiation''] mission_lower
           then ''Radiation Studies''
         else if py_any_in [''hindlimb_unloading'', ''simulated_microgravity'',
                   ''simulated_hypergravity'', ''simulated_environmental''] mission_lower
           then ''Simulated Conditions''
         else if py_any_in [''inspiration4'', ''axiom'', ''ax-'', ''spacex''] mission_lower
           then ''Commercial Spaceflight''
         else ''Other Missions'')"

text \<open>Lines 391 to 394.\<close>

definition add_mission :: "string \<Rightarrow> cell \<Rightarrow> generator \<Rightarrow> generator" where
  "add_mission mission osd_id self =
     (let category = classify_mission mission
      in if mission \<notin> dict_get (new_json self Mission) category
         then self\<lparr>new_json :=
                     (new_json self)(Mission := set_add (new_json self Mission) category mission),
                   unmapped :=
                     (if category = ''Other Missions''
                      then unmapped self @ [(Mission, mission, osd_id)]
                      else unmapped self)\<rparr>
         else self)"

text \<open>Line 359, and the loop of lines 361 to 394 over the pieces.\<close>

definition split_missions :: "string \<Rightarrow> string list" where
  "split_missions missions_str = map py_strip (py_split CHR '','' missions_str)"

fun process_pieces :: "string list \<Rightarrow> cell \<Rightarrow> generator \<Rightarrow> generator" where
  "process_pieces [] osd_id self = self"
| "process_pieces (mission # missions) osd_id self =
     (if mission = [] then process_pieces missions osd_id self
      else process_pieces missions osd_id (add_mission mission osd_id self))"

fun process_mission_rows :: "nat \<Rightarrow> cell list list \<Rightarrow> generator \<Rightarrow> error + generator" where
  "process_mission_rows col_idx [] self = Inr self"
| "process_mission_rows col_idx (row # rows) self =
     (case row of
        [] \<Rightarrow> Inl IndexError
      | osd_id # _ \<Rightarrow>
          if \<not> col_idx < length row then Inl IndexError
          else (case row ! col_idx of
                  None \<Rightarrow> process_mission_rows col_idx rows self
                | Some missions_str \<Rightarrow>
                    if missions_str = [] then process_mission_rows col_idx rows self
                    else process_mission_rows col_idx rows
                           (process_pieces (split_missions missions_str) osd_id
                              (self\<lparr>all_osd_ids := insert osd_id (all_osd_ids self)\<rparr>))))"

definition process_missions :: "generator \<Rightarrow> error + generator" where
  "process_missions self =
     (case index_of ''investigation.study.comment.project identifier''
             (columns (mission_data self)) of
        None \<Rightarrow> Inl ValueError
      | Some col_idx \<Rightarrow> process_mission_rows col_idx (data (mission_data self)) self)"

section \<open>The reconciliation pass\<close>

text \<open>
  \<^verbatim>\<open>process_api_data\<close> (lines 258 to 394): the five blocks in the order of the source. An
  exception leaves the pass and reaches \<^verbatim>\<open>main\<close>.
\<close>

definition process_api_data :: "generator \<Rightarrow> error + generator" where
  "process_api_data self =
     (case process_feed Assay_technology_type ''Other Assay Types''
             ''investigation.study assays.study assay technology type''
             (assay_data self) self of
        Inl e \<Rightarrow> Inl e
      | Inr s1 \<Rightarrow>
     (let s2 = process_factors s1
      in case process_feed Organism ''Other Organisms'' ''study.characteristics.organism''
                (organism_data s2) s2 of
           Inl e \<Rightarrow> Inl e
         | Inr s3 \<Rightarrow>
     (case process_feed Material_type ''Other Materials''
             ''study.characteristics.material type'' (material_data s3) s3 of
        Inl e \<Rightarrow> Inl e
      | Inr s4 \<Rightarrow> process_missions s4)))"

section \<open>The completeness verifier, the outputs and the entry point\<close>

text \<open>\<^verbatim>\<open>verify_completeness\<close> (lines 396 to 442); the printing is left out.\<close>

definition all_groupings :: "grouping list" where
  "all_groupings =
     [Project_Type, Assay_technology_type, Factor, Organism, Material_type, Mission]"

definition original_values :: "generator \<Rightarrow> string set" where
  "original_values self =
     (\<Union>g \<in> set all_groupings.
        case existing_structure self g of
          None \<Rightarrow> {}
        | Some categories \<Rightarrow> (\<Union>(category, vs) \<in> set categories. norm ` vs))"

definition new_values :: "generator \<Rightarrow> string set" where
  "new_values self =
     (\<Union>g \<in> {Project_Type, Assay_technology_type, Factor, Organism, Material_type}.
        \<Union>(category, vs) \<in> set (new_json self g). norm ` vs)"

definition missing_values :: "generator \<Rightarrow> string set" where
  "missing_values self = original_values self - new_values self"

definition verify_completeness :: "generator \<Rightarrow> bool" where
  "verify_completeness self = (missing_values self = {})"

text \<open>
  \<^verbatim>\<open>generate_output_json\<close> (lines 444 to 458): the groupings in the fixed order, the
  categories of each sorted by name, the values of each category sorted. The output index
  has all six groupings as keys (lines 227 to 234), so none is skipped. Strings are
  ordered as Python orders them, by code points and lexicographically.
\<close>

definition grouping_order :: "grouping list" where
  "grouping_order =
     [Project_Type, Assay_technology_type, Factor, Organism, Material_type, Mission]"

definition generate_output_json :: "generator \<Rightarrow> (string \<times> (string \<times> string list) list) list" where
  "generate_output_json self =
     map (\<lambda>g. (grouping_name g,
                map (\<lambda>(category, vs). (category, sorted_list_of_set vs))
                  (sort_key fst (new_json self g))))
       grouping_order"

text \<open>
  What \<^verbatim>\<open>save_outputs\<close> (lines 460 to 541) writes into a file is modelled as the data
  written, without the layout of the text: the taxonomy document, the additions grouped by
  grouping and category, and the unmapped values of each grouping with the text of their
  first five subject-identifiers and the number of further ones.
\<close>

datatype content =
  Taxonomy "(string \<times> (string \<times> string list) list) list"
| Additions_Report "(string \<times> (string \<times> string list) list) list"
| Unmapped_Report "(string \<times> (string \<times> string \<times> int) list) list"

type_synonym files = "(string \<times> content) list"

text \<open>Lines 487 to 498: groupings, categories and values, each sorted.\<close>

definition additions_report :: "generator \<Rightarrow> (string \<times> (string \<times> string list) list) list" where
  "additions_report self =
     (let by_group = map (\<lambda>(g, category, v). (grouping_name g, category, v)) (additions self)
      in map (\<lambda>gn.
                (gn,
                 map (\<lambda>category.
                        (category,
                         sort (map (\<lambda>(gn', category', v). v)
                                 (filter (\<lambda>(gn', category', v). gn' = gn \<and> category' = category)
                                    by_group))))
                   (sort (remdups (map (\<lambda>(gn', category', v). category')
                                     (filter (\<lambda>(gn', category', v). gn' = gn) by_group))))))
           (sort (remdups (map fst by_group))))"

text \<open>
  \<^verbatim>\<open>', '.join(ids)\<close> (line 530) raises \<^verbatim>\<open>TypeError\<close> when an element is not a string.
\<close>

fun join_text :: "string \<Rightarrow> string list \<Rightarrow> string" where
  "join_text sep [] = []"
| "join_text sep [x] = x"
| "join_text sep (x # y # ys) = x @ sep @ join_text sep (y # ys)"

fun all_strings :: "cell list \<Rightarrow> string list option" where
  "all_strings [] = Some []"
| "all_strings (None # xs) = None"
| "all_strings (Some x # xs) = map_option ((#) x) (all_strings xs)"

definition py_join :: "string \<Rightarrow> cell list \<Rightarrow> error + string" where
  "py_join sep xs =
     (case all_strings xs of None \<Rightarrow> Inl TypeError | Some ys \<Rightarrow> Inr (join_text sep ys))"

text \<open>
  Lines 513 to 536. The subject-identifiers recorded for a value of a grouping, in the
  order of the unmapped records; then the loop over the sorted values of a grouping and
  the loop over the sorted groupings. The join of a value is computed before anything is
  written for the value, so an exception leaves the entries written so far.
\<close>

definition ids_of :: "(grouping \<times> string \<times> cell) list \<Rightarrow> string \<Rightarrow> string \<Rightarrow> cell list" where
  "ids_of records gn val =
     map (\<lambda>(g, v, osd_id). osd_id)
       (filter (\<lambda>(g, v, osd_id). grouping_name g = gn \<and> v = val) records)"

fun write_values ::
  "(grouping \<times> string \<times> cell) list \<Rightarrow> string \<Rightarrow> string list \<Rightarrow> (string \<times> string \<times> int) list \<Rightarrow>
   error option \<times> (string \<times> string \<times> int) list" where
  "write_values records gn [] written = (None, written)"
| "write_values records gn (val # vals) written =
     (case py_join '', '' (take 5 (ids_of records gn val)) of
        Inl e \<Rightarrow> (Some e, written)
      | Inr osd_list \<Rightarrow>
          write_values records gn vals
            (written @ [(val, osd_list, int (length (ids_of records gn val)) - 5)]))"

fun write_groups ::
  "(grouping \<times> string \<times> cell) list \<Rightarrow> string list \<Rightarrow>
   (string \<times> (string \<times> string \<times> int) list) list \<Rightarrow>
   error option \<times> (string \<times> (string \<times> string \<times> int) list) list" where
  "write_groups records [] written = (None, written)"
| "write_groups records (gn # gns) written =
     (case write_values records gn
             (sort (remdups (map (\<lambda>(g, v, osd_id). v)
                              (filter (\<lambda>(g, v, osd_id). grouping_name g = gn) records))))
             [] of
        (Some e, entries) \<Rightarrow> (Some e, written @ [(gn, entries)])
      | (None, entries) \<Rightarrow> write_groups records gns (written @ [(gn, entries)]))"

definition unmapped_report ::
  "generator \<Rightarrow> error option \<times> (string \<times> (string \<times> string \<times> int) list) list" where
  "unmapped_report self =
     write_groups (unmapped self)
       (sort (remdups (map (\<lambda>(g, v, osd_id). grouping_name g) (unmapped self)))) []"

text \<open>
  \<^verbatim>\<open>save_outputs\<close>: the three files in the order of the source, into the current
  directory. The file system is the list of the files written, the latest last, and it
  accepts every write. The exception of the unmapped report, if any, is returned with the
  files as they are then: the first two complete and the third with the entries written
  before the exception.
\<close>

definition save_outputs :: "generator \<Rightarrow> files \<Rightarrow> error option \<times> files" where
  "save_outputs self files =
     (let files1 = files @ [(''filter-options-new.json'', Taxonomy (generate_output_json self))];
          files2 = files1 @ [(''additions-report.txt'', Additions_Report (additions_report self))]
      in case unmapped_report self of
           (err, report) \<Rightarrow> (err, files2 @ [(''unmapped-report.txt'', Unmapped_Report report)]))"

text \<open>
  An unmapped record whose subject-identifier is \<^verbatim>\<open>null\<close> is among the first five of its
  value: the records on which the join of line 530 raises.
\<close>

definition null_id_listed :: "generator \<Rightarrow> bool" where
  "null_id_listed self =
     (\<exists>(g, v, osd_id) \<in> set (unmapped self).
        None \<in> set (take 5 (ids_of (unmapped self) (grouping_name g) v)))"

text \<open>
  \<^verbatim>\<open>run\<close> (lines 543 to 562): the pass, the verification, the outputs; the value
  returned or the exception raised, and the files afterwards.
\<close>

definition run :: "generator \<Rightarrow> files \<Rightarrow> (error + bool) \<times> files" where
  "run self files =
     (case process_api_data self of
        Inl e \<Rightarrow> (Inl e, files)
      | Inr s \<Rightarrow>
          (let is_complete = verify_completeness s
           in case save_outputs s files of
                (Some e, files') \<Rightarrow> (Inl e, files')
              | (None, files') \<Rightarrow> (Inr is_complete, files')))"

text \<open>
  \<^verbatim>\<open>main\<close> (lines 565 to 581): the exit code and the files. The constructor either raises
  or gives a generator; \<^verbatim>\<open>except Exception\<close> turns every error into the exit code 1.
\<close>

definition main :: "error + generator \<Rightarrow> files \<Rightarrow> nat \<times> files" where
  "main constructed files =
     (case constructed of
        Inl e \<Rightarrow> (1, files)
      | Inr self \<Rightarrow>
          (case run self files of
             (Inl e, files') \<Rightarrow> (1, files')
           | (Inr success, files') \<Rightarrow> (if success then 0 else 1, files')))"

section \<open>Notions of the specification\<close>

text \<open>
  The recognition rules of the structure extractor, one per grouping: the condition of
  the grouping's branch in lines 177 to 186, read on the text of the label; a missing and
  a \<^verbatim>\<open>null\<close> label have no text. No rule recognises \<^verbatim>\<open>Mission\<close>.
\<close>

definition display_label :: "node \<Rightarrow> string" where
  "display_label item = (case displayValue item of Text d \<Rightarrow> d | Missing \<Rightarrow> [] | Null \<Rightarrow> [])"

fun recognises :: "grouping \<Rightarrow> node \<Rightarrow> bool" where
  "recognises Project_Type item = (''Project Type'' \<in> set (node_values item))"
| "recognises Assay_technology_type item =
     (py_in ''Assay Type'' (display_label item)
      \<or> ''Study Assay Technology Type'' \<in> set (node_values item))"
| "recognises Organism item = (''organism'' \<in> set (node_values item))"
| "recognises Material_type item =
     (py_in ''Tissue'' (display_label item) \<or> ''material type'' \<in> set (node_values item))"
| "recognises Factor item =
     (py_in ''Factor'' (display_label item) \<or> ''Study Factor Name'' \<in> set (node_values item))"
| "recognises Mission item = False"

text \<open>The priority order as the specification gives it.\<close>

definition spec_grouping_priority :: "grouping list" where
  "spec_grouping_priority =
     [Project_Type, Assay_technology_type, Organism, Material_type, Factor]"

text \<open>The values of an entry that the extractor keeps: the non-empty ones.\<close>

definition kept_values :: "node \<Rightarrow> string set" where
  "kept_values n = {v \<in> set (node_values n). v \<noteq> []}"

text \<open>
  The rule table of the mission classifier as the specification gives it: the keywords
  looked for in the normalized piece, whether the case-sensitive \<^verbatim>\<open>RR-\<close> prefix test on
  the original piece belongs to the rule, and the category.
\<close>

definition spec_mission_rules :: "(string list \<times> bool \<times> string) list" where
  "spec_mission_rules =
     [([''expedition'', ''increment'', ''iss''], False, ''ISS Expeditions''),
      ([''sts-'', ''sts '', ''shuttle'', ''sls-''], False, ''Space Shuttle''),
      ([''rodent research''], True, ''Rodent Research''),
      ([''bion'', ''cosmos''], False, ''Bion/Cosmos''),
      ([''bric-'', ''apex-'', ''veg-'', ''ffl'', ''cbtm'', ''cerise''], False,
       ''Payload Investigations''),
      ([''ground'', ''bsl'', ''baseline''], False, ''Ground Control''),
      ([''gamma_irradiation'', ''heavy_ion'', ''hze'', ''proton_irradiation'',
        ''x-ray_irradiation'', ''irradiation'', ''radiation''], False, ''Radiation Studies''),
      ([''hindlimb_unloading'', ''simulated_microgravity'', ''simulated_hypergravity'',
        ''simulated_environmental''], False, ''Simulated Conditions''),
      ([''inspiration4'', ''axiom'', ''ax-'', ''spacex''], False, ''Commercial Spaceflight'')]"

definition spec_rule_matches :: "string \<Rightarrow> string list \<times> bool \<times> string \<Rightarrow> bool" where
  "spec_rule_matches piece rule =
     (case rule of (keywords, rr_prefix, category) \<Rightarrow>
        (rr_prefix \<and> prefix ''RR-'' piece) \<or> py_any_in keywords (norm piece))"

definition spec_classify :: "string \<Rightarrow> string" where
  "spec_classify piece =
     (case find (spec_rule_matches piece) spec_mission_rules of
        Some (keywords, rr_prefix, category) \<Rightarrow> category
      | None \<Rightarrow> ''Other Missions'')"

definition spec_pieces :: "string \<Rightarrow> string list" where
  "spec_pieces missions_str =
     filter (\<lambda>piece. piece \<noteq> []) (map py_strip (py_split CHR '','' missions_str))"

definition mission_categories :: "string list" where
  "mission_categories =
     [''ISS Expeditions'', ''Space Shuttle'', ''Rodent Research'', ''Bion/Cosmos'',
      ''Payload Investigations'', ''Ground Control'', ''Radiation Studies'',
      ''Simulated Conditions'', ''Commercial Spaceflight'', ''Other Missions'']"

text \<open>
  The fallback category of each grouping, from the literals of lines 282, 298, 320, 342
  and 389. Nothing is reconciled into \<^verbatim>\<open>Project Type\<close>.
\<close>

fun other_category :: "grouping \<Rightarrow> string" where
  "other_category Assay_technology_type = ''Other Assay Types''"
| "other_category Factor = ''other''"
| "other_category Organism = ''Other Organisms''"
| "other_category Material_type = ''Other Materials''"
| "other_category Mission = ''Other Missions''"
| "other_category Project_Type = []"

text \<open>
  The text of a cell: both \<^verbatim>\<open>null\<close> and the empty string are falsy and have no text.
\<close>

definition cell_text :: "cell \<Rightarrow> string" where
  "cell_text c = (case c of None \<Rightarrow> [] | Some v \<Rightarrow> v)"

text \<open>
  The observation records of a row feed: the value and the subject-identifier of every
  row with a non-empty value in the feed's column.
\<close>

definition row_observations :: "nat \<Rightarrow> cell list list \<Rightarrow> (string \<times> cell) list" where
  "row_observations i rows =
     map (\<lambda>row. (cell_text (row ! i), hd row)) (filter (\<lambda>row. cell_text (row ! i) \<noteq> []) rows)"

definition column_observations :: "string \<Rightarrow> feed \<Rightarrow> (string \<times> cell) list" where
  "column_observations column fd =
     (case index_of column (columns fd) of
        None \<Rightarrow> []
      | Some i \<Rightarrow> row_observations i (data fd))"

definition assay_observations :: "generator \<Rightarrow> (string \<times> cell) list" where
  "assay_observations self =
     column_observations ''investigation.study assays.study assay technology type''
       (assay_data self)"

definition organism_observations :: "generator \<Rightarrow> (string \<times> cell) list" where
  "organism_observations self =
     column_observations ''study.characteristics.organism'' (organism_data self)"

definition material_observations :: "generator \<Rightarrow> (string \<times> cell) list" where
  "material_observations self =
     column_observations ''study.characteristics.material type'' (material_data self)"

definition mission_observations :: "generator \<Rightarrow> (string \<times> cell) list" where
  "mission_observations self =
     column_observations ''investigation.study.comment.project identifier''
       (mission_data self)"

text \<open>The raw values that the pass observes for a grouping.\<close>

fun observed :: "generator \<Rightarrow> grouping \<Rightarrow> string set" where
  "observed self Assay_technology_type = fst ` set (assay_observations self)"
| "observed self Factor = factor_name ` set (factor_cols self)"
| "observed self Organism = fst ` set (organism_observations self)"
| "observed self Material_type = fst ` set (material_observations self)"
| "observed self Mission =
     (\<Union>(missions_str, osd_id) \<in> set (mission_observations self).
        set (spec_pieces missions_str))"
| "observed self Project_Type = {}"

text \<open>The number of unmapped records of a grouping that carry a given value.\<close>

definition unmapped_count :: "generator \<Rightarrow> grouping \<Rightarrow> string \<Rightarrow> nat" where
  "unmapped_count self g v =
     length (filter (\<lambda>(g', v', osd_id). g' = g \<and> v' = v) (unmapped self))"

section \<open>The pass as a sequence of steps\<close>

text \<open>
  The pass changes the generator through three kinds of step only: recording a
  subject-identifier, placing a value of a snapshot grouping, and placing a mission.
  The steps of a pass are fixed by the feeds.
\<close>

datatype step =
  Add_Id cell
| Place grouping string string cell
| Add_Mission string cell

fun exec :: "step \<Rightarrow> generator \<Rightarrow> generator" where
  "exec (Add_Id osd_id) self = self\<lparr>all_osd_ids := insert osd_id (all_osd_ids self)\<rparr>"
| "exec (Place g other v osd_id) self = place_value g other v osd_id self"
| "exec (Add_Mission mission osd_id) self = add_mission mission osd_id self"

text \<open>The category that a value of a snapshot grouping goes to.\<close>

definition target_category :: "generator \<Rightarrow> grouping \<Rightarrow> string \<Rightarrow> string \<Rightarrow> string" where
  "target_category self g other v =
     (case find_category_for_value self v g of
        None \<Rightarrow> other
      | Some category \<Rightarrow> if category \<noteq> [] then category else other)"

text \<open>A step is settled in a state that it would leave as it is.\<close>

fun settled :: "step \<Rightarrow> generator \<Rightarrow> bool" where
  "settled (Add_Id osd_id) self = (osd_id \<in> all_osd_ids self)"
| "settled (Place g other v osd_id) self =
     (v \<in> dict_get (new_json self g) (target_category self g other v))"
| "settled (Add_Mission mission osd_id) self =
     (mission \<in> dict_get (new_json self Mission) (classify_mission mission))"

fun rows_ok :: "nat \<Rightarrow> cell list list \<Rightarrow> bool" where
  "rows_ok col_idx [] = True"
| "rows_ok col_idx (row # rows) = (row \<noteq> [] \<and> col_idx < length row \<and> rows_ok col_idx rows)"

definition feed_ok :: "string \<Rightarrow> feed \<Rightarrow> bool" where
  "feed_ok column fd =
     (case index_of column (columns fd) of
        None \<Rightarrow> False
      | Some i \<Rightarrow> rows_ok i (data fd))"

definition pass_ok :: "generator \<Rightarrow> bool" where
  "pass_ok self =
     (feed_ok ''investigation.study assays.study assay technology type'' (assay_data self)
      \<and> feed_ok ''study.characteristics.organism'' (organism_data self)
      \<and> feed_ok ''study.characteristics.material type'' (material_data self)
      \<and> feed_ok ''investigation.study.comment.project identifier'' (mission_data self))"

definition value_steps :: "grouping \<Rightarrow> (string \<times> cell) list \<Rightarrow> step list" where
  "value_steps g obs =
     concat (map (\<lambda>(v, osd_id). [Add_Id osd_id, Place g (other_category g) v osd_id]) obs)"

definition factor_steps :: "generator \<Rightarrow> step list" where
  "factor_steps self =
     map (\<lambda>col. Place Factor ''other'' (factor_name col) (Some ''schema'')) (factor_cols self)"

definition mission_steps :: "(string \<times> cell) list \<Rightarrow> step list" where
  "mission_steps obs =
     concat (map (\<lambda>(missions_str, osd_id).
        Add_Id osd_id # map (\<lambda>piece. Add_Mission piece osd_id) (spec_pieces missions_str)) obs)"

definition pass_steps :: "generator \<Rightarrow> step list" where
  "pass_steps self =
     value_steps Assay_technology_type (assay_observations self)
     @ factor_steps self
     @ value_steps Organism (organism_observations self)
     @ value_steps Material_type (material_observations self)
     @ mission_steps (mission_observations self)"

text \<open>
  The steps that a pass can contain: a value goes to the fallback category of its own
  grouping, a Factor value carries \<^verbatim>\<open>schema\<close>, a mission piece is not empty.
\<close>

fun pass_step :: "step \<Rightarrow> bool" where
  "pass_step (Add_Id osd_id) = True"
| "pass_step (Place g other v osd_id) =
     (g \<in> {Assay_technology_type, Factor, Organism, Material_type}
      \<and> other = other_category g \<and> (g = Factor \<longrightarrow> osd_id = Some ''schema''))"
| "pass_step (Add_Mission mission osd_id) = (mission \<noteq> [])"

text \<open>
  The invariants of the index: a dictionary has every key once, and no category of an
  extracted structure has the empty name.
\<close>

definition wf_catmap :: "catmap \<Rightarrow> bool" where
  "wf_catmap d = (distinct (map fst d) \<and> [] \<notin> fst ` set d)"

text \<open>What one child contributes under a category key.\<close>

definition child_values :: "node \<Rightarrow> string \<Rightarrow> string set" where
  "child_values child k =
     (if k = category_name child then kept_values child else {}) \<union>
     (\<Union>sub \<in> set (children child).
        if k = full_category_name (category_name child) sub then kept_values sub else {})"

definition child_keys :: "node \<Rightarrow> string set" where
  "child_keys child =
     insert (category_name child)
       (full_category_name (category_name child) ` set (children child))"

text \<open>The state of the extractor: the five keys, each with a well-formed dictionary.\<close>

definition wf_structure :: "taxonomy_index \<Rightarrow> bool" where
  "wf_structure st =
     (st Mission = None \<and> (\<forall>g. g \<noteq> Mission \<longrightarrow> (\<exists>d. st g = Some d \<and> wf_catmap d)))"

text \<open>What the entries of a document contribute to a grouping under a category key.\<close>

definition doc_values :: "node list \<Rightarrow> grouping \<Rightarrow> string \<Rightarrow> string set" where
  "doc_values doc g k =
     (\<Union>item \<in> set doc.
        if identify_grouping item = Inr (Some g)
        then (\<Union>c \<in> set (children item). child_values c k) else {})"

definition doc_keys :: "node list \<Rightarrow> grouping \<Rightarrow> string set" where
  "doc_keys doc g =
     (\<Union>item \<in> set doc.
        if identify_grouping item = Inr (Some g)
        then (\<Union>c \<in> set (children item). child_keys c) else {})"

section \<open>The end-to-end scenario of the specification\<close>

text \<open>
  The snapshot has the grouping \<^verbatim>\<open>Organism\<close> with the category \<^verbatim>\<open>Rodents\<close> and the value
  \<^verbatim>\<open>Mus musculus\<close>; the organism feed has the rows \<^verbatim>\<open>(OSD-100, mus musculus)\<close> and
  \<^verbatim>\<open>(OSD-101, Rattus norvegicus)\<close>. The other feeds have their columns and no rows.
\<close>

definition scenario_document :: "node list" where
  "scenario_document =
     [Node (Text ''Organism'') [''organism''] [Node (Text ''Rodents'') [''Mus musculus''] []]]"

definition scenario_structure :: taxonomy_index where
  "scenario_structure = empty_structure(Organism \<mapsto> [(''Rodents'', {''Mus musculus''})])"

definition feed_of :: "string \<Rightarrow> string list list \<Rightarrow> feed" where
  "feed_of column rows = \<lparr>columns = [''id.accession'', column], data = map (map Some) rows\<rparr>"

definition scenario :: generator where
  "scenario =
     new_generator scenario_structure
       (feed_of ''investigation.study assays.study assay technology type'' [])
       (feed_of ''investigation.study assays.study assay technology type'' [])
       (feed_of ''study.characteristics.organism''
          [[''OSD-100'', ''mus musculus''], [''OSD-101'', ''Rattus norvegicus'']])
       (feed_of ''study.characteristics.material type'' [])
       (feed_of ''investigation.study.comment.project identifier'' [])"




section \<open>Notions for the records of a pass\<close>

text \<open>
  An observed value has a normalized match when some value of some category of the
  snapshot of its grouping has the same normalized form.
\<close>

definition normalized_match :: "generator \<Rightarrow> grouping \<Rightarrow> string \<Rightarrow> bool" where
  "normalized_match self g v =
     (case existing_structure self g of
        None \<Rightarrow> False
      | Some categories \<Rightarrow> \<exists>(category, vs) \<in> set categories. \<exists>e \<in> vs. norm e = norm v)"

text \<open>
  The records of an unmatched value during a pass: no addition record, and one unmapped
  record exactly when the value is in the fallback category.
\<close>

definition value_invariant :: "grouping \<Rightarrow> string \<Rightarrow> generator \<Rightarrow> bool" where
  "value_invariant g v s =
     ((\<forall>c. (g, c, v) \<notin> set (additions s))
      \<and> unmapped_count s g v = (if v \<in> dict_get (new_json s g) (other_category g) then 1 else 0))"

definition mission_invariant :: "string \<Rightarrow> generator \<Rightarrow> bool" where
  "mission_invariant piece s =
     ((\<forall>c. (Mission, c, piece) \<notin> set (additions s))
      \<and> unmapped_count s Mission piece =
          (if classify_mission piece = ''Other Missions''
              \<and> piece \<in> dict_get (new_json s Mission) ''Other Missions''
           then 1 else 0))"

section \<open>A wider scenario\<close>

text \<open>
  A wider scenario: the snapshot of the scenario, two assay rows with the same unknown
  assay type, a factor column, the two organism rows, and two mission rows that share a
  piece no rule matches.
\<close>

definition wide_scenario :: generator where
  "wide_scenario =
     new_generator scenario_structure
       (feed_of ''investigation.study assays.study assay technology type''
          [[''OSD-7'', ''Quantum Flux Sequencing''], [''OSD-8'', ''Quantum Flux Sequencing'']])
       (feed_of ''study.factor value.spaceflight'' [[''OSD-7'', ''Flight'']])
       (feed_of ''study.characteristics.organism''
          [[''OSD-100'', ''mus musculus''], [''OSD-101'', ''Rattus norvegicus'']])
       (feed_of ''study.characteristics.material type'' [])
       (feed_of ''investigation.study.comment.project identifier''
          [[''OSD-1'', ''RR-5, Expedition 45, Mystery-1''], [''OSD-2'', ''Mystery-1'']])"

section \<open>Records and identifiers of the steps\<close>

text \<open>An unmapped record that a pass may append.\<close>

definition record_ok :: "grouping \<times> string \<times> cell \<Rightarrow> bool" where
  "record_ok r =
     (case r of (g, v, osd_id) \<Rightarrow>
        (g \<noteq> Factor \<or> osd_id = Some ''schema'')
        \<and> (g \<noteq> Mission \<or> classify_mission v = ''Other Missions''))"

text \<open>The subject-identifier that a step records.\<close>

fun step_ids :: "step \<Rightarrow> cell set" where
  "step_ids (Add_Id osd_id) = {osd_id}"
| "step_ids (Place g other v osd_id) = {}"
| "step_ids (Add_Mission mission osd_id) = {}"

section \<open>Properties of the normalizer\<close>

text \<open>The equations that evaluate the string functions on literals.\<close>

lemmas string_eval =
  norm_def py_strip_def py_lower_def py_isspace_def py_lower_char_def py_isupper_code_def
  py_split_def py_any_in_def char_of_def bit_Suc_0_iff Let_def

lemma lower_code:
  "py_isupper_code n \<Longrightarrow> (of_char (char_of (n + 32)) :: nat) = n + 32"
  by (auto simp: py_isupper_code_def)

lemma py_lower_char_idem: "py_lower_char (py_lower_char c) = py_lower_char c"
proof (cases "py_isupper_code (of_char c)")
  case True
  then have "\<not> py_isupper_code (of_char (char_of ((of_char c :: nat) + 32)))"
    using lower_code [OF True] by (auto simp: py_isupper_code_def)
  then show ?thesis
    by (simp add: py_lower_char_def Let_def)
next
  case False
  then show ?thesis
    by (simp add: py_lower_char_def Let_def)
qed

lemma py_isspace_lower_char: "py_isspace (py_lower_char c) = py_isspace c"
proof (cases "py_isupper_code (of_char c)")
  case True
  have "\<not> py_isspace c"
    using True by (auto simp: py_isspace_def py_isupper_code_def Let_def)
  moreover have "\<not> py_isspace (char_of ((of_char c :: nat) + 32))"
    using True lower_code [OF True] by (auto simp: py_isspace_def py_isupper_code_def Let_def)
  ultimately show ?thesis
    using True by (simp add: py_lower_char_def Let_def)
next
  case False
  then show ?thesis
    by (simp add: py_lower_char_def Let_def)
qed

lemma py_lower_idem: "py_lower (py_lower s) = py_lower s"
  by (simp add: py_lower_def py_lower_char_idem)

lemma py_strip_lower: "py_strip (py_lower s) = py_lower (py_strip s)"
proof -
  have comp: "py_isspace \<circ> py_lower_char = py_isspace"
    by (rule ext) (simp add: py_isspace_lower_char)
  show ?thesis
    by (simp add: py_strip_def py_lower_def dropWhile_map rev_map comp)
qed

lemma dropWhile_rev_prefix:
  "prefix (rev (dropWhile P (rev t))) t"
proof -
  have "rev (takeWhile P (rev t) @ dropWhile P (rev t)) = t"
    by simp
  then have "rev (dropWhile P (rev t)) @ rev (takeWhile P (rev t)) = t"
    by (simp only: rev_append)
  then show ?thesis
    by (metis prefixI)
qed

lemma py_strip_idem: "py_strip (py_strip s) = py_strip s"
proof -
  define t where "t = dropWhile py_isspace s"
  define u where "u = rev (dropWhile py_isspace (rev t))"
  have u: "py_strip s = u"
    by (simp add: py_strip_def t_def u_def)
  have pre: "prefix u t"
    unfolding u_def by (rule dropWhile_rev_prefix)
  have front: "dropWhile py_isspace u = u"
  proof (cases u)
    case Nil
    then show ?thesis by simp
  next
    case (Cons a us)
    with pre have "hd t = a" and "t \<noteq> []"
      by (auto simp: prefix_def)
    moreover have "t \<noteq> [] \<Longrightarrow> \<not> py_isspace (hd t)"
      unfolding t_def by (rule hd_dropWhile)
    ultimately show ?thesis
      using Cons by simp
  qed
  have rear: "dropWhile py_isspace (rev u) = rev u"
    by (simp add: u_def)
  show ?thesis
    unfolding u by (simp add: py_strip_def front rear)
qed

lemma py_strip_Nil: "py_strip [] = []"
  by (simp add: py_strip_def)

lemma norm_Nil: "norm [] = []"
  by (simp add: norm_def)

lemma norm_eq: "norm s = py_lower (py_strip s)"
  by (simp add: norm_def py_strip_Nil py_lower_def)

text \<open>
  C9. The normalizer is idempotent on every string, and the case and whitespace variants
  of the spec's example collapse to the one key \<^verbatim>\<open>mus musculus\<close>. Outside ASCII, a
  no-break space (U+00A0) at the end is stripped like a blank, and a capital E with acute
  (U+00C9) is lower-cased to U+00E9.
\<close>

theorem norm_idempotent:
  "norm (norm s) = norm s
   \<and> norm '' Mus musculus '' = ''mus musculus''
   \<and> norm ''MUS MUSCULUS'' = ''mus musculus''
   \<and> norm (''Mus musculus'' @ [CHR 0xA0]) = ''mus musculus''
   \<and> norm (CHR 0xC9 # ''COLE'') = CHR 0xE9 # ''cole''"
proof -
  have "norm (norm s) = norm s"
    by (simp add: norm_eq py_strip_lower py_strip_idem py_lower_idem)
  moreover have "norm '' Mus musculus '' = ''mus musculus''"
    by (simp add: string_eval)
  moreover have "norm ''MUS MUSCULUS'' = ''mus musculus''"
    by (simp add: string_eval)
  moreover have "norm (''Mus musculus'' @ [CHR 0xA0]) = ''mus musculus''"
    by (simp add: string_eval)
  moreover have "norm (CHR 0xC9 # ''COLE'') = CHR 0xE9 # ''cole''"
    by (simp add: string_eval)
  ultimately show ?thesis by simp
qed

section \<open>Dictionaries\<close>

lemma dict_get_update:
  "dict_get (AList.update k s d) k' = (if k' = k then s else dict_get d k')"
  by (simp add: dict_get_def update_conv')

lemma dict_get_set_add:
  "dict_get (set_add d k v) k' = (if k' = k then insert v (dict_get d k) else dict_get d k')"
  by (simp add: set_add_def dict_get_update)

lemma dict_get_ensure_key: "dict_get (ensure_key d k) k' = dict_get d k'"
  by (auto simp: ensure_key_def dict_get_update) (simp add: dict_get_def)

lemma dict_get_add_values:
  "dict_get (add_values d k vs) k' =
     (if k' = k then dict_get d k \<union> {v \<in> set vs. v \<noteq> []} else dict_get d k')"
  by (induction vs arbitrary: d) (auto simp: dict_get_set_add)

lemma keys_set_add: "fst ` set (set_add d k v) = insert k (fst ` set d)"
  by (simp add: set_add_def dom_update)

lemma keys_ensure_key: "fst ` set (ensure_key d k) = insert k (fst ` set d)"
  by (auto simp: ensure_key_def dom_update map_of_eq_None_iff)

lemma keys_add_values: "k \<in> fst ` set d \<Longrightarrow> fst ` set (add_values d k vs) = fst ` set d"
  by (induction vs arbitrary: d) (auto simp: keys_set_add)

lemma distinct_set_add: "distinct (map fst d) \<Longrightarrow> distinct (map fst (set_add d k v))"
  by (simp add: set_add_def distinct_update)

lemma distinct_ensure_key: "distinct (map fst d) \<Longrightarrow> distinct (map fst (ensure_key d k))"
  by (simp add: ensure_key_def distinct_update)

lemma distinct_add_values:
  "distinct (map fst d) \<Longrightarrow> distinct (map fst (add_values d k vs))"
  by (induction vs arbitrary: d) (auto simp: distinct_set_add)

lemma dict_get_mem_entry:
  "v \<in> dict_get d k \<Longrightarrow> \<exists>vs. (k, vs) \<in> set d \<and> v \<in> vs"
  by (auto simp: dict_get_def split: option.splits dest: map_of_SomeD)

lemma dict_get_entry:
  "distinct (map fst d) \<Longrightarrow> (k, vs) \<in> set d \<Longrightarrow> dict_get d k = vs"
  by (simp add: dict_get_def)

section \<open>The extractor\<close>

lemma dict_get_extract_subchild:
  "dict_get (extract_subchild category d subchild) k =
     dict_get d k \<union>
       (if k = full_category_name category subchild then kept_values subchild else {})"
  by (simp add: extract_subchild_def Let_def dict_get_add_values dict_get_ensure_key
      kept_values_def)

lemma keys_extract_subchild:
  "fst ` set (extract_subchild category d subchild) =
     insert (full_category_name category subchild) (fst ` set d)"
  by (simp add: extract_subchild_def Let_def keys_add_values keys_ensure_key)

lemma wf_extract_subchild:
  "wf_catmap d \<Longrightarrow> wf_catmap (extract_subchild category d subchild)"
  unfolding wf_catmap_def
  by (simp add: keys_extract_subchild)
     (simp add: extract_subchild_def Let_def distinct_add_values distinct_ensure_key
        full_category_name_def)

lemma dict_get_subchildren:
  "dict_get (foldl (extract_subchild category) d subs) k =
     dict_get d k \<union>
       (\<Union>sub \<in> set subs. if k = full_category_name category sub then kept_values sub else {})"
  by (induction subs arbitrary: d) (auto simp: dict_get_extract_subchild)

lemma keys_subchildren:
  "fst ` set (foldl (extract_subchild category) d subs) =
     fst ` set d \<union> full_category_name category ` set subs"
  by (induction subs arbitrary: d) (auto simp: keys_extract_subchild)

lemma wf_subchildren:
  "wf_catmap d \<Longrightarrow> wf_catmap (foldl (extract_subchild category) d subs)"
  by (induction subs arbitrary: d) (auto simp: wf_extract_subchild)

lemma dict_get_extract_child:
  "dict_get (extract_child d child) k = dict_get d k \<union> child_values child k"
  by (auto simp: extract_child_def Let_def dict_get_subchildren dict_get_add_values
      dict_get_ensure_key child_values_def kept_values_def)

lemma keys_extract_child:
  "fst ` set (extract_child d child) = fst ` set d \<union> child_keys child"
  by (auto simp: extract_child_def Let_def keys_subchildren keys_add_values keys_ensure_key
      child_keys_def)

lemma category_name_nonempty: "category_name child \<noteq> []"
  by (simp add: category_name_def split: option.splits)

lemma wf_extract_child: "wf_catmap d \<Longrightarrow> wf_catmap (extract_child d child)"
proof -
  assume wf: "wf_catmap d"
  let ?c = "category_name child"
  have "wf_catmap (add_values (ensure_key d ?c) ?c (node_values child))"
    using wf unfolding wf_catmap_def
    by (simp add: distinct_add_values distinct_ensure_key keys_add_values keys_ensure_key
        category_name_nonempty [symmetric])
  then show ?thesis
    by (simp add: extract_child_def Let_def wf_subchildren)
qed

lemma dict_get_children:
  "dict_get (foldl extract_child d cs) k = dict_get d k \<union> (\<Union>c \<in> set cs. child_values c k)"
  by (induction cs arbitrary: d) (auto simp: dict_get_extract_child)

lemma keys_children:
  "fst ` set (foldl extract_child d cs) = fst ` set d \<union> (\<Union>c \<in> set cs. child_keys c)"
  by (induction cs arbitrary: d) (auto simp: keys_extract_child)

lemma wf_children: "wf_catmap d \<Longrightarrow> wf_catmap (foldl extract_child d cs)"
  by (induction cs arbitrary: d) (auto simp: wf_extract_child)

lemma identify_grouping_not_Mission: "identify_grouping item \<noteq> Inr (Some Mission)"
  by (simp add: identify_grouping_def Let_def split: option.splits label.splits)

lemma wf_empty_structure: "wf_structure empty_structure"
proof -
  have "\<exists>d. empty_structure g = Some d \<and> wf_catmap d" if "g \<noteq> Mission" for g
    using that by (cases g) (simp_all add: empty_structure_def wf_catmap_def)
  then show ?thesis
    by (simp add: wf_structure_def) (simp add: empty_structure_def)
qed

lemma extract_item_cases:
  assumes "extract_item st item = Inr st'"
  shows "(identify_grouping item = Inr None \<and> st' = st)
         \<or> (\<exists>g. identify_grouping item = Inr (Some g) \<and> g \<noteq> Mission
               \<and> (case st g of
                     None \<Rightarrow> st' = st
                   | Some d \<Rightarrow> st' = st(g \<mapsto> foldl extract_child d (children item))))"
proof (cases "identify_grouping item")
  case (Inl e)
  then show ?thesis
    using assms by (simp add: extract_item_def)
next
  case (Inr r)
  show ?thesis
  proof (cases r)
    case None
    then show ?thesis
      using assms Inr by (simp add: extract_item_def)
  next
    case (Some g)
    then have "g \<noteq> Mission"
      using Inr identify_grouping_not_Mission [of item] by auto
    then show ?thesis
      using assms Inr Some by (auto simp: extract_item_def split: option.splits)
  qed
qed

lemma wf_extract_item:
  assumes "wf_structure st" "extract_item st item = Inr st'"
  shows "wf_structure st'"
proof -
  consider "st' = st"
    | g d where "g \<noteq> Mission" "st g = Some d"
        "st' = st(g \<mapsto> foldl extract_child d (children item))"
    using extract_item_cases [OF assms(2)] by (auto split: option.splits)
  then show ?thesis
  proof cases
    case 1
    then show ?thesis using assms(1) by simp
  next
    case 2
    then have "wf_catmap d"
      using assms(1) by (auto simp: wf_structure_def)
    then have "wf_catmap (foldl extract_child d (children item))"
      by (rule wf_children)
    then show ?thesis
      using assms(1) 2 by (auto simp: wf_structure_def)
  qed
qed

lemma wf_extract_items:
  "wf_structure st \<Longrightarrow> extract_items st items = Inr st' \<Longrightarrow> wf_structure st'"
proof (induction items arbitrary: st)
  case Nil
  then show ?case by simp
next
  case (Cons item items)
  then obtain st1 where st1: "extract_item st item = Inr st1" "extract_items st1 items = Inr st'"
    by (auto split: sum.splits)
  then show ?case
    using Cons.IH [of st1] wf_extract_item [OF Cons.prems(1) st1(1)] by simp
qed

lemma wf_extract_existing_structure:
  "extract_existing_structure doc = Inr es \<Longrightarrow> wf_structure es"
  using wf_extract_items [OF wf_empty_structure, of doc es]
  by (simp add: extract_existing_structure_def)

lemma extract_item_get:
  assumes "wf_structure st" "st g = Some d" "extract_item st item = Inr st'"
  shows "\<exists>d'. st' g = Some d'
     \<and> (\<forall>k. dict_get d' k = dict_get d k \<union> doc_values [item] g k)
     \<and> fst ` set d' = fst ` set d \<union> doc_keys [item] g"
proof -
  consider "identify_grouping item = Inr None" "st' = st"
    | g' e where "identify_grouping item = Inr (Some g')" "st g' = Some e"
        "st' = st(g' \<mapsto> foldl extract_child e (children item))"
    using extract_item_cases [OF assms(3)] assms(1)
    by (auto simp: wf_structure_def split: option.splits)
  then show ?thesis
  proof cases
    case 1
    then show ?thesis
      using assms by (simp add: doc_values_def doc_keys_def)
  next
    case 2
    show ?thesis
    proof (cases "g' = g")
      case True
      then show ?thesis
        using 2 assms
        by (simp add: doc_values_def doc_keys_def dict_get_children keys_children)
    next
      case False
      then show ?thesis
        using 2 assms by (auto simp: doc_values_def doc_keys_def)
    qed
  qed
qed

lemma extract_items_get:
  assumes "wf_structure st" "st g = Some d" "extract_items st items = Inr st'"
  shows "\<exists>d'. st' g = Some d'
     \<and> (\<forall>k. dict_get d' k = dict_get d k \<union> doc_values items g k)
     \<and> fst ` set d' = fst ` set d \<union> doc_keys items g"
  using assms
proof (induction items arbitrary: st d)
  case Nil
  then show ?case by (simp add: doc_values_def doc_keys_def)
next
  case (Cons item items)
  obtain st1 where st1: "extract_item st item = Inr st1" "extract_items st1 items = Inr st'"
    using Cons.prems(3) by (auto split: sum.splits)
  obtain d1 where d1: "st1 g = Some d1"
    "\<forall>k. dict_get d1 k = dict_get d k \<union> doc_values [item] g k"
    "fst ` set d1 = fst ` set d \<union> doc_keys [item] g"
    using extract_item_get [OF Cons.prems(1,2) st1(1)] by blast
  have wf1: "wf_structure st1"
    using Cons.prems(1) st1(1) by (rule wf_extract_item)
  obtain d' where d': "st' g = Some d'"
    "\<forall>k. dict_get d' k = dict_get d1 k \<union> doc_values items g k"
    "fst ` set d' = fst ` set d1 \<union> doc_keys items g"
    using Cons.IH [OF wf1 d1(1) st1(2)] by blast
  have "\<forall>k. dict_get d' k = dict_get d k \<union> doc_values (item # items) g k"
    using d1(2) d'(2) by (auto simp: doc_values_def)
  moreover have "fst ` set d' = fst ` set d \<union> doc_keys (item # items) g"
    using d1(3) d'(3) by (auto simp: doc_keys_def)
  ultimately show ?case
    using d'(1) by simp
qed

lemma extract_existing_structure_get:
  assumes "extract_existing_structure doc = Inr es" "g \<noteq> Mission"
  shows "\<exists>d. es g = Some d \<and> wf_catmap d
     \<and> (\<forall>k. dict_get d k = doc_values doc g k) \<and> fst ` set d = doc_keys doc g"
proof -
  have e: "empty_structure g = Some []"
    using assms(2) by (cases g) (simp_all add: empty_structure_def)
  have run: "extract_items empty_structure doc = Inr es"
    using assms(1) by (simp add: extract_existing_structure_def)
  obtain d where d: "es g = Some d"
    "\<forall>k. dict_get d k = dict_get [] k \<union> doc_values doc g k"
    "fst ` set d = fst ` set ([] :: catmap) \<union> doc_keys doc g"
    using extract_items_get [OF wf_empty_structure e run] by auto
  have "wf_catmap d"
    using wf_extract_existing_structure [OF assms(1)] assms(2) d(1)
    by (auto simp: wf_structure_def)
  then show ?thesis
    using d by (simp add: dict_get_def)
qed

lemma extract_existing_structure_Mission:
  "extract_existing_structure doc = Inr es \<Longrightarrow> es Mission = None"
  using wf_extract_existing_structure [of doc es] by (simp add: wf_structure_def)

lemmas extract_eval =
  extract_existing_structure_def extract_item_def identify_grouping_def empty_structure_def
  extract_child_def extract_subchild_def category_name_def full_category_name_def
  label_or_first_value_def ensure_key_def set_add_def dict_get_def display_label_def

lemma identify_grouping_text:
  "displayValue item \<noteq> Null \<Longrightarrow>
   identify_grouping item = Inr (find (\<lambda>g. recognises g item) spec_grouping_priority)"
  by (cases "displayValue item")
     (simp_all add: identify_grouping_def spec_grouping_priority_def display_label_def)

lemma identify_grouping_null:
  "displayValue item = Null \<Longrightarrow>
   identify_grouping item =
     (if ''Project Type'' \<in> set (node_values item) then Inr (Some Project_Type)
      else Inl TypeError)"
  by (simp add: identify_grouping_def)

lemma find_recognises_None:
  "find (\<lambda>g. recognises g item) spec_grouping_priority = None \<longleftrightarrow> (\<forall>g. \<not> recognises g item)"
proof
  assume "find (\<lambda>g. recognises g item) spec_grouping_priority = None"
  then have *: "\<forall>g \<in> set spec_grouping_priority. \<not> recognises g item"
    by (simp add: find_None_iff)
  show "\<forall>g. \<not> recognises g item"
  proof
    fix g
    show "\<not> recognises g item"
      using * by (cases g) (simp_all add: spec_grouping_priority_def)
  qed
next
  assume "\<forall>g. \<not> recognises g item"
  then show "find (\<lambda>g. recognises g item) spec_grouping_priority = None"
    by (simp add: find_None_iff)
qed

lemma extract_items_append:
  "extract_items st (xs @ ys) =
     (case extract_items st xs of Inl e \<Rightarrow> Inl e | Inr st' \<Rightarrow> extract_items st' ys)"
  by (induction xs arbitrary: st) (simp_all split: sum.splits)

lemma extract_item_skip:
  "identify_grouping item = Inr None \<Longrightarrow> extract_item structure item = Inr structure"
  by (simp add: extract_item_def)

lemma extract_skip:
  "identify_grouping item = Inr None \<Longrightarrow>
   extract_existing_structure (before @ item # after) = extract_existing_structure (before @ after)"
  by (simp add: extract_existing_structure_def extract_items_append extract_item_skip
      split: sum.splits)

lemma extract_raise:
  "identify_grouping item = Inl e \<Longrightarrow>
   \<exists>e'. extract_existing_structure (before @ item # after) = Inl e'"
  by (simp add: extract_existing_structure_def extract_items_append extract_item_def
      split: sum.splits)

text \<open>
  C7, as amended. The grouping of a top-level entry whose display label is a string or
  missing is the first grouping, in the order Project Type, Assay technology type,
  Organism, Material type, Factor, whose recognition rule the entry satisfies, and such an
  entry gets no grouping exactly when it satisfies no rule. An entry that gets no grouping
  is skipped without an error: it leaves the structure as it is, and the extraction of a
  document with it is the extraction of the document without it. An entry whose display
  label is \<^verbatim>\<open>null\<close> is taken for Project Type when it has the Project Type marker and
  raises \<^verbatim>\<open>TypeError\<close> otherwise, and an entry that raises makes the extraction of every
  document with it raise. The last conjunct is an entry that satisfies the Organism and
  the Factor rule and is taken for Organism.
\<close>

theorem grouping_recognition:
  "(displayValue item \<noteq> Null \<longrightarrow>
      identify_grouping item = Inr (find (\<lambda>g. recognises g item) spec_grouping_priority)
      \<and> (identify_grouping item = Inr None \<longleftrightarrow> (\<forall>g. \<not> recognises g item)))
   \<and> (identify_grouping item = Inr None \<longrightarrow>
        extract_item structure item = Inr structure
        \<and> extract_existing_structure (before @ item # after)
            = extract_existing_structure (before @ after))
   \<and> (displayValue item = Null \<longrightarrow>
        identify_grouping item =
          (if ''Project Type'' \<in> set (node_values item) then Inr (Some Project_Type)
           else Inl TypeError))
   \<and> (identify_grouping item = Inl e \<longrightarrow>
        (\<exists>e'. extract_existing_structure (before @ item # after) = Inl e'))
   \<and> identify_grouping (Node (Text ''Factors'') [''organism'', ''Study Factor Name''] [])
       = Inr (Some Organism)"
proof (intro conjI impI)
  assume "displayValue item \<noteq> Null"
  then show t: "identify_grouping item
                  = Inr (find (\<lambda>g. recognises g item) spec_grouping_priority)"
    by (rule identify_grouping_text)
  show "identify_grouping item = Inr None \<longleftrightarrow> (\<forall>g. \<not> recognises g item)"
    using t find_recognises_None [of item] by simp
next
  assume "identify_grouping item = Inr None"
  then show "extract_item structure item = Inr structure"
    by (rule extract_item_skip)
next
  assume "identify_grouping item = Inr None"
  then show "extract_existing_structure (before @ item # after)
               = extract_existing_structure (before @ after)"
    by (rule extract_skip)
next
  assume "displayValue item = Null"
  then show "identify_grouping item =
          (if ''Project Type'' \<in> set (node_values item) then Inr (Some Project_Type)
           else Inl TypeError)"
    by (rule identify_grouping_null)
next
  assume "identify_grouping item = Inl e"
  then show "\<exists>e'. extract_existing_structure (before @ item # after) = Inl e'"
    by (rule extract_raise)
next
  show "identify_grouping (Node (Text ''Factors'') [''organism'', ''Study Factor Name''] [])
       = Inr (Some Organism)"
    by (simp add: identify_grouping_def)
qed

text \<open>
  An entry of another kind, after an Organism entry, is skipped; an entry with a \<^verbatim>\<open>null\<close>
  label and the Project Type marker is taken for Project Type, and one with a \<^verbatim>\<open>null\<close>
  label and the organism marker makes the extraction raise.
\<close>

theorem grouping_recognition_witness:
  "identify_grouping (Node (Text ''Data Source'') [''Data Source Type'']
      [Node (Text ''GeneLab'') [''cgene''] []]) = Inr None
   \<and> extract_item empty_structure (Node (Text ''Data Source'') [''Data Source Type'']
      [Node (Text ''GeneLab'') [''cgene''] []]) = Inr empty_structure
   \<and> extract_existing_structure
        ([Node (Text ''Organism'') [''organism''] [Node (Text ''Rodents'') [''Mus musculus''] []]]
         @ Node (Text ''Data Source'') [''Data Source Type'']
             [Node (Text ''GeneLab'') [''cgene''] []] # [])
      = extract_existing_structure
         ([Node (Text ''Organism'') [''organism''] [Node (Text ''Rodents'') [''Mus musculus''] []]]
          @ [])
   \<and> identify_grouping (Node Null [''Project Type''] []) = Inr (Some Project_Type)
   \<and> (\<exists>e'. extract_existing_structure ([] @ Node Null [''organism''] [] # []) = Inl e')"
proof -
  let ?other = "Node (Text ''Data Source'') [''Data Source Type'']
      [Node (Text ''GeneLab'') [''cgene''] []]"
  let ?before =
    "[Node (Text ''Organism'') [''organism''] [Node (Text ''Rodents'') [''Mus musculus''] []]]"
  note skip = grouping_recognition [of ?other empty_structure ?before "[]"]
  have l: "displayValue ?other \<noteq> Null"
    by simp
  have "\<forall>g. \<not> recognises g ?other"
  proof
    fix g
    show "\<not> recognises g ?other"
      by (cases g) (simp_all add: display_label_def)
  qed
  then have none: "identify_grouping ?other = Inr None"
    using skip l by blast
  have 1: "extract_item empty_structure ?other = Inr empty_structure
        \<and> extract_existing_structure (?before @ ?other # [])
            = extract_existing_structure (?before @ [])"
    using skip none by blast
  have 2: "identify_grouping (Node Null [''Project Type''] []) = Inr (Some Project_Type)"
    using grouping_recognition [of "Node Null [''Project Type''] []"] by simp
  have "identify_grouping (Node Null [''organism''] []) = Inl TypeError"
    using grouping_recognition [of "Node Null [''organism''] []"] by simp
  then have 3: "\<exists>e'. extract_existing_structure ([] @ Node Null [''organism''] [] # []) = Inl e'"
    using grouping_recognition [of "Node Null [''organism''] []" _ "[]" "[]" TypeError]
    by blast
  show ?thesis
    using none 1 2 3 by blast
qed

text \<open>
  C7 as stated fails: an entry with a \<^verbatim>\<open>null\<close> display label and the only value
  \<^verbatim>\<open>Data Source Type\<close> satisfies no recognition rule, and it is not skipped: it raises
  \<^verbatim>\<open>TypeError\<close>, and so does the extraction of a document that has it after an Organism
  entry.
\<close>

theorem grouping_null_label_counterexample:
  "find (\<lambda>g. recognises g (Node Null [''Data Source Type''] [])) spec_grouping_priority = None
   \<and> identify_grouping (Node Null [''Data Source Type''] []) = Inl TypeError
   \<and> extract_existing_structure
        [Node (Text ''Organism'') [''organism''] [Node (Text ''Rodents'') [''Mus musculus''] []],
         Node Null [''Data Source Type''] []] = Inl TypeError"
  by (simp add: extract_eval spec_grouping_priority_def)

lemma extract_records:
  assumes "extract_existing_structure doc = Inr es"
    and "item \<in> set doc" "identify_grouping item = Inr (Some g)" "child \<in> set (children item)"
  shows "\<exists>d. es g = Some d
           \<and> category_name child \<in> fst ` set d
           \<and> kept_values child \<subseteq> dict_get d (category_name child)
           \<and> (\<forall>sub \<in> set (children child).
                 full_category_name (category_name child) sub \<in> fst ` set d
                 \<and> kept_values sub \<subseteq> dict_get d (full_category_name (category_name child) sub))"
proof -
  have "g \<noteq> Mission"
    using assms(3) identify_grouping_not_Mission [of item] by auto
  then obtain d where d: "es g = Some d"
    "\<forall>k. dict_get d k = doc_values doc g k" "fst ` set d = doc_keys doc g"
    using extract_existing_structure_get [OF assms(1), of g] by blast
  have keys: "child_keys child \<subseteq> doc_keys doc g"
    using assms by (auto simp: doc_keys_def)
  have vals: "child_values child k \<subseteq> doc_values doc g k" for k
    using assms by (auto simp: doc_values_def)
  have "category_name child \<in> fst ` set d"
    using keys d(3) by (auto simp: child_keys_def)
  moreover have "kept_values child \<subseteq> dict_get d (category_name child)"
    using vals [of "category_name child"] d(2) by (auto simp: child_values_def)
  moreover have "full_category_name (category_name child) sub \<in> fst ` set d"
    if "sub \<in> set (children child)" for sub
    using that keys d(3) by (auto simp: child_keys_def)
  moreover have "kept_values sub \<subseteq> dict_get d (full_category_name (category_name child) sub)"
    if "sub \<in> set (children child)" for sub
    using that vals [of "full_category_name (category_name child) sub"] d(2)
    by (auto simp: child_values_def)
  ultimately show ?thesis
    using d(1) by blast
qed

text \<open>
  C6, as amended. The category name of a child is its display label when the label is
  there and not empty; the first raw value when the child has no label field and that
  value is not empty; and \<^verbatim>\<open>Uncategorized\<close> when the label is there but empty (the empty
  string or \<^verbatim>\<open>null\<close>), or when there is no label field and no non-empty first value. The
  compound key of a grandchild is \<^verbatim>\<open><category>|<subcategory>\<close>, with the subcategory taken
  from the non-empty label or, without a label field, from the non-empty first raw value.
  In the extracted structure of a document, the grouping of a recognized entry has the
  category key of each child with the child's non-empty values under it, and the compound
  key of each grandchild with the grandchild's non-empty values under it.
\<close>

theorem category_name_derivation:
  "(\<forall>d. displayValue child = Text d \<longrightarrow> d \<noteq> [] \<longrightarrow> category_name child = d)
   \<and> (\<forall>v vs. displayValue child = Missing \<longrightarrow> node_values child = v # vs \<longrightarrow> v \<noteq> [] \<longrightarrow>
         category_name child = v)
   \<and> (displayValue child = Text [] \<or> displayValue child = Null
        \<or> (displayValue child = Missing
            \<and> (node_values child = [] \<or> hd (node_values child) = []))
       \<longrightarrow> category_name child = ''Uncategorized'')
   \<and> (\<forall>d. displayValue sub = Text d \<longrightarrow> d \<noteq> [] \<longrightarrow>
         full_category_name category sub = category @ ''|'' @ d)
   \<and> (\<forall>v vs. displayValue sub = Missing \<longrightarrow> node_values sub = v # vs \<longrightarrow> v \<noteq> [] \<longrightarrow>
         full_category_name category sub = category @ ''|'' @ v)
   \<and> (extract_existing_structure doc = Inr es \<longrightarrow> item \<in> set doc \<longrightarrow>
        identify_grouping item = Inr (Some g) \<longrightarrow> child \<in> set (children item) \<longrightarrow>
        (\<exists>d. es g = Some d
           \<and> category_name child \<in> fst ` set d
           \<and> kept_values child \<subseteq> dict_get d (category_name child)
           \<and> (\<forall>s \<in> set (children child).
                 full_category_name (category_name child) s \<in> fst ` set d
                 \<and> kept_values s \<subseteq> dict_get d (full_category_name (category_name child) s))))"
proof -
  have "displayValue child = Text [] \<or> displayValue child = Null
        \<or> (displayValue child = Missing
            \<and> (node_values child = [] \<or> hd (node_values child) = []))
       \<longrightarrow> category_name child = ''Uncategorized''"
    by (auto simp: category_name_def label_or_first_value_def split: list.splits)
  moreover have "\<forall>d. displayValue child = Text d \<longrightarrow> d \<noteq> [] \<longrightarrow> category_name child = d"
    by (simp add: category_name_def label_or_first_value_def)
  moreover have "\<forall>v vs. displayValue child = Missing \<longrightarrow> node_values child = v # vs \<longrightarrow>
         v \<noteq> [] \<longrightarrow> category_name child = v"
    by (simp add: category_name_def label_or_first_value_def)
  moreover have "\<forall>d. displayValue sub = Text d \<longrightarrow> d \<noteq> [] \<longrightarrow>
         full_category_name category sub = category @ ''|'' @ d"
    by (simp add: full_category_name_def label_or_first_value_def)
  moreover have "\<forall>v vs. displayValue sub = Missing \<longrightarrow> node_values sub = v # vs \<longrightarrow>
         v \<noteq> [] \<longrightarrow> full_category_name category sub = category @ ''|'' @ v"
    by (simp add: full_category_name_def label_or_first_value_def)
  ultimately show ?thesis
    using extract_records [of doc es item g child] by blast
qed

text \<open>A labelled child with a labelled grandchild, and children without label fields.\<close>

theorem category_name_derivation_witness:
  "category_name (Node (Text ''Rodents'') [''Mus musculus'']
          [Node (Text ''Rats'') [''Rattus norvegicus''] []]) = ''Rodents''
   \<and> category_name (Node Missing [''Mus musculus''] []) = ''Mus musculus''
   \<and> category_name (Node Missing [] []) = ''Uncategorized''
   \<and> full_category_name ''Rodents'' (Node (Text ''Rats'') [''Rattus norvegicus''] [])
       = ''Rodents|Rats''
   \<and> full_category_name ''Rodents'' (Node Missing [''Rattus norvegicus''] [])
       = ''Rodents|Rattus norvegicus''
   \<and> (\<exists>es d. extract_existing_structure
          [Node (Text ''Organism'') [''organism'']
             [Node (Text ''Rodents'') [''Mus musculus'']
                [Node (Text ''Rats'') [''Rattus norvegicus''] []]]] = Inr es
        \<and> es Organism = Some d
        \<and> ''Mus musculus'' \<in> dict_get d ''Rodents''
        \<and> ''Rattus norvegicus'' \<in> dict_get d ''Rodents|Rats'')"
proof -
  let ?sub = "Node (Text ''Rats'') [''Rattus norvegicus''] []"
  let ?child = "Node (Text ''Rodents'') [''Mus musculus''] [?sub]"
  let ?item = "Node (Text ''Organism'') [''organism''] [?child]"
  have g: "identify_grouping ?item = Inr (Some Organism)"
    by (simp add: identify_grouping_def)
  obtain es where es: "extract_existing_structure [?item] = Inr es"
    using g by (auto simp: extract_existing_structure_def extract_item_def empty_structure_def)
  have c: "category_name ?child = ''Rodents''"
    using category_name_derivation [of ?child] by simp
  have f: "full_category_name ''Rodents'' ?sub = ''Rodents|Rats''"
    using category_name_derivation [of _ ?sub "''Rodents''"] by simp
  have "\<exists>d. es Organism = Some d
        \<and> ''Mus musculus'' \<in> dict_get d ''Rodents''
        \<and> ''Rattus norvegicus'' \<in> dict_get d ''Rodents|Rats''"
    using category_name_derivation [of ?child ?sub "''Rodents''" "[?item]" es ?item Organism]
      es g c f
    by (auto simp: kept_values_def)
  moreover have "category_name (Node Missing [''Mus musculus''] []) = ''Mus musculus''"
    using category_name_derivation [of "Node Missing [''Mus musculus''] []"] by simp
  moreover have "category_name (Node Missing [] []) = ''Uncategorized''"
    using category_name_derivation [of "Node Missing [] []"] by simp
  moreover have "full_category_name ''Rodents'' (Node Missing [''Rattus norvegicus''] [])
       = ''Rodents|Rattus norvegicus''"
    using category_name_derivation [of _ "Node Missing [''Rattus norvegicus''] []" "''Rodents''"]
    by simp
  ultimately show ?thesis
    using c f es by blast
qed

text \<open>
  C6 as stated fails: a child whose display label is the empty string and whose first raw
  value is \<^verbatim>\<open>Mus musculus\<close> gets the category \<^verbatim>\<open>Uncategorized\<close>, not its first raw value.
\<close>

theorem category_name_empty_label_counterexample:
  "category_name (Node (Text []) [''Mus musculus''] []) = ''Uncategorized''
   \<and> category_name (Node (Text []) [''Mus musculus''] []) \<noteq> ''Mus musculus''
   \<and> map_sum id (\<lambda>es. es Organism)
        (extract_existing_structure
           [Node (Text ''Organism'') [''organism''] [Node (Text []) [''Mus musculus''] []]])
       = Inr (Some [(''Uncategorized'', {''Mus musculus''})])"
  by (simp add: extract_eval)

section \<open>What a step keeps\<close>

lemma find_category_cong:
  "existing_structure s' = existing_structure s \<Longrightarrow>
   find_category_for_value s' v g = find_category_for_value s v g"
  by (simp add: find_category_for_value_def)

lemma target_category_cong:
  "existing_structure s' = existing_structure s \<Longrightarrow>
   target_category s' g other v = target_category s g other v"
  using find_category_cong [of s' s v g] by (simp add: target_category_def)

lemma place_value_target:
  "place_value g other v osd_id s =
     (if target_category s g other v = other \<and>
         (find_category_for_value s v g = None \<or> find_category_for_value s v g = Some [])
      then add_to_other g other v osd_id s
      else add_to_category g (target_category s g other v) v s)"
  by (auto simp: place_value_def target_category_def split: option.splits)

lemma exec_frame:
  "existing_structure (exec st s) = existing_structure s
   \<and> assay_data (exec st s) = assay_data s \<and> factor_data (exec st s) = factor_data s
   \<and> organism_data (exec st s) = organism_data s
   \<and> material_data (exec st s) = material_data s
   \<and> mission_data (exec st s) = mission_data s"
  by (cases st)
     (simp_all add: place_value_def add_to_category_def add_to_other_def add_mission_def
        Let_def split: option.splits)

lemma fold_exec_frame:
  "existing_structure (fold exec sts s) = existing_structure s
   \<and> assay_data (fold exec sts s) = assay_data s
   \<and> factor_data (fold exec sts s) = factor_data s
   \<and> organism_data (fold exec sts s) = organism_data s
   \<and> material_data (fold exec sts s) = material_data s
   \<and> mission_data (fold exec sts s) = mission_data s"
  by (induction sts arbitrary: s) (simp_all add: exec_frame)

lemma exec_mono: "dict_get (new_json s g) k \<subseteq> dict_get (new_json (exec st s) g) k"
  by (cases st)
     (auto simp: place_value_def add_to_category_def add_to_other_def add_mission_def
        Let_def dict_get_set_add split: option.splits)

lemma fold_exec_mono: "dict_get (new_json s g) k \<subseteq> dict_get (new_json (fold exec sts s) g) k"
proof (induction sts arbitrary: s)
  case Nil
  then show ?case by simp
next
  case (Cons st sts)
  show ?case
    using exec_mono [of s g k st] Cons.IH [of "exec st s"] by auto
qed

section \<open>Settled steps\<close>

lemma settled_exec_id: "settled st s \<Longrightarrow> exec st s = s"
proof (cases st)
  case (Add_Id osd_id)
  assume "settled st s"
  then show ?thesis
    using Add_Id by (simp add: insert_absorb)
next
  case (Place g other v osd_id)
  assume "settled st s"
  then have mem: "v \<in> dict_get (new_json s g) (target_category s g other v)"
    using Place by simp
  have "place_value g other v osd_id s = s"
  proof (cases "target_category s g other v = other")
    case True
    then show ?thesis
      using mem by (simp add: place_value_target add_to_category_def add_to_other_def)
  next
    case False
    then show ?thesis
      using mem by (simp add: place_value_target add_to_category_def)
  qed
  then show ?thesis
    using Place by simp
next
  case (Add_Mission mission osd_id)
  assume "settled st s"
  then show ?thesis
    using Add_Mission by (simp add: add_mission_def)
qed

lemma settled_after_exec: "settled st (exec st s)"
proof (cases st)
  case (Add_Id osd_id)
  then show ?thesis by simp
next
  case (Place g other v osd_id)
  have "target_category (place_value g other v osd_id s) g other v = target_category s g other v"
    using exec_frame [of "Place g other v osd_id" s] by (intro target_category_cong) simp
  moreover have "v \<in> dict_get (new_json (place_value g other v osd_id s) g)
                     (target_category s g other v)"
    by (simp add: place_value_target add_to_category_def add_to_other_def dict_get_set_add)
  ultimately show ?thesis
    using Place by simp
next
  case (Add_Mission mission osd_id)
  then show ?thesis
    by (simp add: add_mission_def Let_def dict_get_set_add)
qed

lemma settled_stable: "settled st s \<Longrightarrow> settled st (exec st' s)"
proof (cases st)
  case (Add_Id osd_id)
  assume "settled st s"
  then show ?thesis
    using Add_Id
    by (cases st')
       (simp_all add: place_value_def add_to_category_def add_to_other_def add_mission_def
          Let_def split: option.splits)
next
  case (Place g other v osd_id)
  assume "settled st s"
  moreover have "target_category (exec st' s) g other v = target_category s g other v"
    using exec_frame [of st' s] by (intro target_category_cong) simp
  ultimately show ?thesis
    using Place exec_mono [of s g "target_category s g other v" st'] by auto
next
  case (Add_Mission mission osd_id)
  assume "settled st s"
  then show ?thesis
    using Add_Mission exec_mono [of s Mission "classify_mission mission" st'] by auto
qed

lemma settled_fold_stable: "settled st s \<Longrightarrow> settled st (fold exec sts s)"
  by (induction sts arbitrary: s) (simp_all add: settled_stable)

lemma all_settled_after_fold: "st \<in> set sts \<Longrightarrow> settled st (fold exec sts s)"
proof (induction sts arbitrary: s)
  case Nil
  then show ?case by simp
next
  case (Cons a sts)
  show ?case
  proof (cases "st = a")
    case True
    then show ?thesis
      using settled_fold_stable [OF settled_after_exec, of a sts s] by simp
  next
    case False
    then show ?thesis
      using Cons by simp
  qed
qed

lemma fold_exec_settled_id: "(\<forall>st \<in> set sts. settled st s) \<Longrightarrow> fold exec sts s = s"
  by (induction sts) (simp_all add: settled_exec_id)

lemma fold_exec_twice: "fold exec sts (fold exec sts s) = fold exec sts s"
  by (rule fold_exec_settled_id) (simp add: all_settled_after_fold)

lemma process_rows_eq:
  "process_rows g (other_category g) i rows s =
     (if rows_ok i rows
      then Inr (fold exec (value_steps g (row_observations i rows)) s)
      else Inl IndexError)"
proof (induction rows arbitrary: s)
  case Nil
  then show ?case by (simp add: value_steps_def row_observations_def)
next
  case (Cons row rows)
  show ?case
  proof (cases row)
    case Nil
    then show ?thesis by simp
  next
    case (Cons osd_id cells)
    then show ?thesis
      using Cons.IH
      by (simp add: value_steps_def row_observations_def cell_text_def split: option.splits)
  qed
qed

lemma process_feed_eq:
  "process_feed g (other_category g) column fd s = Inr s' \<longleftrightarrow>
     feed_ok column fd \<and> s' = fold exec (value_steps g (column_observations column fd)) s"
  by (auto simp: process_feed_def feed_ok_def column_observations_def process_rows_eq
      split: option.splits)

lemma exec_Place: "exec (Place g other v osd_id) = place_value g other v osd_id"
  by (rule ext) simp

lemma process_factors_eq: "process_factors s = fold exec (factor_steps s) s"
  by (simp add: process_factors_def factor_steps_def foldl_conv_fold fold_map comp_def
      exec_Place)

lemma process_pieces_eq:
  "process_pieces ps osd_id s =
     fold exec (map (\<lambda>piece. Add_Mission piece osd_id) (filter (\<lambda>piece. piece \<noteq> []) ps)) s"
  by (induction ps arbitrary: s) simp_all

lemma process_mission_rows_eq:
  "process_mission_rows i rows s =
     (if rows_ok i rows
      then Inr (fold exec (mission_steps (row_observations i rows)) s)
      else Inl IndexError)"
proof (induction rows arbitrary: s)
  case Nil
  then show ?case by (simp add: mission_steps_def row_observations_def)
next
  case (Cons row rows)
  show ?case
  proof (cases row)
    case Nil
    then show ?thesis by simp
  next
    case (Cons osd_id cells)
    then show ?thesis
      using Cons.IH
      by (simp add: mission_steps_def process_pieces_eq split_missions_def spec_pieces_def
          row_observations_def cell_text_def split: option.splits)
  qed
qed

lemma process_missions_eq:
  "process_missions s = Inr s' \<longleftrightarrow>
     feed_ok ''investigation.study.comment.project identifier'' (mission_data s)
     \<and> s' = fold exec (mission_steps (mission_observations s)) s"
  by (auto simp: process_missions_def feed_ok_def mission_observations_def
      column_observations_def process_mission_rows_eq split: option.splits)

lemma process_api_data_eq:
  "process_api_data s = Inr s' \<longleftrightarrow> pass_ok s \<and> s' = fold exec (pass_steps s) s"
proof -
  let ?a = "value_steps Assay_technology_type (assay_observations s)"
  let ?f = "factor_steps s"
  let ?o = "value_steps Organism (organism_observations s)"
  let ?m = "value_steps Material_type (material_observations s)"
  let ?p = "mission_steps (mission_observations s)"
  define s1 where "s1 = fold exec ?a s"
  define s2 where "s2 = fold exec ?f s1"
  define s3 where "s3 = fold exec ?o s2"
  define s4 where "s4 = fold exec ?m s3"
  have f1: "factor_data s1 = factor_data s"
    unfolding s1_def using fold_exec_frame [of ?a s] by simp
  have f2: "organism_data s2 = organism_data s"
    unfolding s2_def s1_def
    using fold_exec_frame [of ?a s] fold_exec_frame [of ?f "fold exec ?a s"] by simp
  have f3: "material_data s3 = material_data s"
    unfolding s3_def s2_def s1_def
    using fold_exec_frame [of ?a s] fold_exec_frame [of ?f "fold exec ?a s"]
      fold_exec_frame [of ?o "fold exec ?f (fold exec ?a s)"] by simp
  have f4: "mission_data s4 = mission_data s"
    unfolding s4_def s3_def s2_def s1_def
    using fold_exec_frame [of ?a s] fold_exec_frame [of ?f "fold exec ?a s"]
      fold_exec_frame [of ?o "fold exec ?f (fold exec ?a s)"]
      fold_exec_frame [of ?m "fold exec ?o (fold exec ?f (fold exec ?a s))"] by simp
  have fs: "factor_steps s1 = ?f"
    by (simp add: factor_steps_def factor_cols_def f1)
  have os: "organism_observations s2 = organism_observations s"
    by (simp add: organism_observations_def f2)
  have ms: "material_observations s3 = material_observations s"
    by (simp add: material_observations_def f3)
  have ps: "mission_observations s4 = mission_observations s"
    by (simp add: mission_observations_def f4)
  have all: "fold exec (pass_steps s) s = fold exec ?p s4"
    by (simp add: pass_steps_def s4_def s3_def s2_def s1_def)
  have a: "process_feed Assay_technology_type ''Other Assay Types''
             ''investigation.study assays.study assay technology type'' (assay_data s) s = Inr t
           \<longleftrightarrow> feed_ok ''investigation.study assays.study assay technology type'' (assay_data s)
               \<and> t = s1" for t
    using process_feed_eq [of Assay_technology_type _ "assay_data s" s t]
    by (simp add: s1_def assay_observations_def)
  have o: "process_feed Organism ''Other Organisms'' ''study.characteristics.organism''
             (organism_data s2) s2 = Inr t
           \<longleftrightarrow> feed_ok ''study.characteristics.organism'' (organism_data s) \<and> t = s3" for t
    using process_feed_eq [of Organism _ "organism_data s2" s2 t] os
    by (simp add: s3_def organism_observations_def f2)
  have m: "process_feed Material_type ''Other Materials''
             ''study.characteristics.material type'' (material_data s3) s3 = Inr t
           \<longleftrightarrow> feed_ok ''study.characteristics.material type'' (material_data s) \<and> t = s4" for t
    using process_feed_eq [of Material_type _ "material_data s3" s3 t] ms
    by (simp add: s4_def material_observations_def f3)
  have p: "process_missions s4 = Inr t
           \<longleftrightarrow> feed_ok ''investigation.study.comment.project identifier'' (mission_data s)
               \<and> t = fold exec ?p s4" for t
    using process_missions_eq [of s4 t] ps by (simp add: f4)
  have s2': "process_factors s1 = s2"
    by (simp add: process_factors_eq fs s2_def)
  show ?thesis
  proof
    assume run: "process_api_data s = Inr s'"
    then obtain t1 where t1: "process_feed Assay_technology_type ''Other Assay Types''
             ''investigation.study assays.study assay technology type'' (assay_data s) s = Inr t1"
      by (auto simp: process_api_data_def split: sum.splits)
    then have t1s: "t1 = s1" and ok1: "feed_ok
        ''investigation.study assays.study assay technology type'' (assay_data s)"
      using a by auto
    from run t1 obtain t3 where t3: "process_feed Organism ''Other Organisms''
             ''study.characteristics.organism'' (organism_data s2) s2 = Inr t3"
      by (auto simp: process_api_data_def Let_def t1s s2' split: sum.splits)
    then have t3s: "t3 = s3" and ok3: "feed_ok ''study.characteristics.organism'' (organism_data s)"
      using o by auto
    from run t1 t3 obtain t4 where t4: "process_feed Material_type ''Other Materials''
             ''study.characteristics.material type'' (material_data s3) s3 = Inr t4"
      by (auto simp: process_api_data_def Let_def t1s s2' t3s split: sum.splits)
    then have t4s: "t4 = s4"
      and ok4: "feed_ok ''study.characteristics.material type'' (material_data s)"
      using m by auto
    from run t1 t3 t4 have "process_missions s4 = Inr s'"
      by (simp add: process_api_data_def Let_def t1s s2' t3s t4s)
    then have "feed_ok ''investigation.study.comment.project identifier'' (mission_data s)"
      and "s' = fold exec ?p s4"
      using p by auto
    then show "pass_ok s \<and> s' = fold exec (pass_steps s) s"
      using ok1 ok3 ok4 all by (simp add: pass_ok_def)
  next
    assume ok: "pass_ok s \<and> s' = fold exec (pass_steps s) s"
    have 1: "process_feed Assay_technology_type ''Other Assay Types''
             ''investigation.study assays.study assay technology type'' (assay_data s) s = Inr s1"
      using ok a by (simp add: pass_ok_def)
    have 3: "process_feed Organism ''Other Organisms'' ''study.characteristics.organism''
             (organism_data s2) s2 = Inr s3"
      using ok o by (simp add: pass_ok_def)
    have 4: "process_feed Material_type ''Other Materials''
             ''study.characteristics.material type'' (material_data s3) s3 = Inr s4"
      using ok m by (simp add: pass_ok_def)
    have 5: "process_missions s4 = Inr s'"
      using ok p all by (simp add: pass_ok_def)
    show "process_api_data s = Inr s'"
      by (simp add: process_api_data_def Let_def 1 s2' 3 4 5)
  qed
qed

lemma pass_cong:
  assumes "assay_data s' = assay_data s" "factor_data s' = factor_data s"
    "organism_data s' = organism_data s" "material_data s' = material_data s"
    "mission_data s' = mission_data s"
  shows "pass_ok s' = pass_ok s \<and> pass_steps s' = pass_steps s"
  using assms
  by (simp add: pass_ok_def pass_steps_def assay_observations_def organism_observations_def
      material_observations_def mission_observations_def factor_steps_def factor_cols_def)

lemma process_api_data_twice:
  assumes "process_api_data s = Inr s1"
  shows "process_api_data s1 = Inr s1"
proof -
  have ok: "pass_ok s" and s1: "s1 = fold exec (pass_steps s) s"
    using assms by (simp_all add: process_api_data_eq)
  have "pass_ok s1 = pass_ok s \<and> pass_steps s1 = pass_steps s"
    unfolding s1 using fold_exec_frame [of "pass_steps s" s] by (intro pass_cong) simp_all
  then show ?thesis
    using ok s1 by (simp add: process_api_data_eq fold_exec_twice)
qed

lemmas pass_eval =
  process_api_data_def process_feed_def process_factors_def factor_cols_def factor_name_def
  process_missions_def place_value_def add_to_category_def add_to_other_def add_mission_def
  find_category_for_value_def split_missions_def classify_mission_def
  initialize_from_existing_def new_generator_def feed_of_def

lemma scenario_extracted:
  "extract_existing_structure scenario_document = Inr scenario_structure"
  by (simp add: scenario_document_def scenario_structure_def extract_eval)

lemma scenario_constructed:
  "init_generator scenario_document (assay_data scenario) (factor_data scenario)
     (organism_data scenario) (material_data scenario) (mission_data scenario) = Inr scenario"
  by (simp add: init_generator_def scenario_extracted scenario_def new_generator_def)

lemma scenario_pass:
  "map_sum id (\<lambda>s. (new_json s Organism, additions s, unmapped s, all_osd_ids s))
     (process_api_data scenario)
   = Inr ([(''Rodents'', {''mus musculus'', ''Mus musculus''}),
           (''Other Organisms'', {''Rattus norvegicus''})],
          [(Organism, ''Rodents'', ''mus musculus'')],
          [(Organism, ''Rattus norvegicus'', Some ''OSD-101'')],
          {Some ''OSD-100'', Some ''OSD-101''})"
  by (simp add: scenario_def scenario_structure_def empty_structure_def pass_eval string_eval
      set_add_def dict_get_def insert_commute)

lemma scenario_result:
  "\<exists>s. process_api_data scenario = Inr s
      \<and> new_json s Organism = [(''Rodents'', {''mus musculus'', ''Mus musculus''}),
                                (''Other Organisms'', {''Rattus norvegicus''})]
      \<and> additions s = [(Organism, ''Rodents'', ''mus musculus'')]
      \<and> unmapped s = [(Organism, ''Rattus norvegicus'', Some ''OSD-101'')]
      \<and> all_osd_ids s = {Some ''OSD-100'', Some ''OSD-101''}"
  using scenario_pass by (cases "process_api_data scenario") simp_all

section \<open>The initial output index\<close>

lemma update_fresh: "k \<notin> fst ` set d \<Longrightarrow> AList.update k v d = d @ [(k, v)]"
  by (induction d) auto

lemma foldl_update_distinct:
  "distinct (map fst (d @ xs)) \<Longrightarrow>
   foldl (\<lambda>d (category, vs). AList.update category vs d) d xs = d @ xs"
proof (induction xs arbitrary: d)
  case Nil
  then show ?case by simp
next
  case (Cons x xs)
  obtain k v where x: "x = (k, v)"
    by (cases x)
  have fresh: "k \<notin> fst ` set d"
    using Cons.prems x by auto
  have "distinct (map fst ((d @ [(k, v)]) @ xs))"
    using Cons.prems x by simp
  then have "foldl (\<lambda>d (category, vs). AList.update category vs d) (d @ [(k, v)]) xs
             = (d @ [(k, v)]) @ xs"
    by (rule Cons.IH)
  then show ?case
    using x fresh by (simp add: update_fresh)
qed

lemma initialize_from_existing_wf:
  "es g = Some categories \<Longrightarrow> wf_catmap categories \<Longrightarrow>
   initialize_from_existing es g = categories"
  using foldl_update_distinct [of "[]" categories]
  by (simp add: initialize_from_existing_def wf_catmap_def)

lemma new_generator_new_json:
  assumes "wf_structure es" and "es g = Some categories"
  shows "g \<noteq> Mission \<and> wf_catmap categories
         \<and> new_json (new_generator es a f o' m mi) g = categories"
proof -
  have g: "g \<noteq> Mission"
    using assms unfolding wf_structure_def by auto
  then obtain d where "es g = Some d" "wf_catmap d"
    using assms(1) unfolding wf_structure_def by blast
  then have "wf_catmap categories"
    using assms(2) by simp
  then show ?thesis
    using g assms(2) by (simp add: new_generator_def initialize_from_existing_wf)
qed

lemma init_generator_Inr:
  assumes "init_generator doc a f o' m mi = Inr s0"
  shows "extract_existing_structure doc = Inr (existing_structure s0)
         \<and> wf_structure (existing_structure s0)
         \<and> s0 = new_generator (existing_structure s0) a f o' m mi"
proof (cases "extract_existing_structure doc")
  case (Inl e)
  then show ?thesis
    using assms by (simp add: init_generator_def)
next
  case (Inr es)
  then have "s0 = new_generator es a f o' m mi"
    using assms by (simp add: init_generator_def)
  then show ?thesis
    using Inr wf_extract_existing_structure [OF Inr] by (simp add: new_generator_def)
qed

section \<open>Writing the outputs\<close>

lemma all_strings_None: "all_strings xs = None \<longleftrightarrow> None \<in> set xs"
  by (induction xs rule: all_strings.induct) auto

lemma py_join_result:
  "(\<exists>text. py_join sep xs = Inr text) \<longleftrightarrow> None \<notin> set xs"
  "py_join sep xs = Inl e \<longleftrightarrow> None \<in> set xs \<and> e = TypeError"
  using all_strings_None [of xs] by (auto simp: py_join_def split: option.splits)

lemma write_values_result:
  "fst (write_values records gn vals written)
     = (if \<exists>val \<in> set vals. None \<in> set (take 5 (ids_of records gn val))
        then Some TypeError else None)"
proof (induction vals arbitrary: written)
  case Nil
  then show ?case by simp
next
  case (Cons val vals)
  show ?case
  proof (cases "py_join '', '' (take 5 (ids_of records gn val))")
    case (Inl e)
    then show ?thesis
      using py_join_result(2) [of "'', ''" "take 5 (ids_of records gn val)" e] by simp
  next
    case (Inr osd_list)
    then have "None \<notin> set (take 5 (ids_of records gn val))"
      using py_join_result(1) [of "'', ''" "take 5 (ids_of records gn val)"] by blast
    then show ?thesis
      using Inr Cons.IH by simp
  qed
qed

lemma write_groups_result:
  "fst (write_groups records gns written)
     = (if \<exists>gn \<in> set gns.
             \<exists>val \<in> set (map (\<lambda>(g, v, osd_id). v)
                           (filter (\<lambda>(g, v, osd_id). grouping_name g = gn) records)).
               None \<in> set (take 5 (ids_of records gn val))
        then Some TypeError else None)"
proof -
  define raises where
    "raises gn \<longleftrightarrow>
       (\<exists>val \<in> set (map (\<lambda>(g, v, osd_id). v)
                     (filter (\<lambda>(g, v, osd_id). grouping_name g = gn) records)).
          None \<in> set (take 5 (ids_of records gn val)))" for gn
  have head: "fst (write_values records gn
                     (sort (remdups (map (\<lambda>(g, v, osd_id). v)
                                      (filter (\<lambda>(g, v, osd_id). grouping_name g = gn)
                                         records))))
                     [])
              = (if raises gn then Some TypeError else None)" for gn
    unfolding raises_def by (simp add: write_values_result)
  have "fst (write_groups records gns written)
          = (if \<exists>gn \<in> set gns. raises gn then Some TypeError else None)" for written
  proof (induction gns arbitrary: written)
    case Nil
    then show ?case by simp
  next
    case (Cons gn gns)
    show ?case
    proof (cases "write_values records gn
                    (sort (remdups (map (\<lambda>(g, v, osd_id). v)
                                     (filter (\<lambda>(g, v, osd_id). grouping_name g = gn)
                                        records))))
                    []")
      case (Pair err entries)
      then have "err = (if raises gn then Some TypeError else None)"
        using head [of gn] by simp
      then show ?thesis
        using Pair Cons.IH [of "written @ [(gn, entries)]"] by (cases "raises gn") simp_all
    qed
  qed
  then show ?thesis
    by (simp add: raises_def)
qed

lemma ids_of_record:
  "osd_id \<in> set (ids_of records gn val) \<longleftrightarrow>
   (\<exists>g. (g, val, osd_id) \<in> set records \<and> grouping_name g = gn)"
  by (induction records) (auto simp: ids_of_def)

lemma unmapped_report_result:
  "fst (unmapped_report s) = (if null_id_listed s then Some TypeError else None)"
proof -
  have "(\<exists>gn \<in> set (sort (remdups (map (\<lambda>(g, v, osd_id). grouping_name g) (unmapped s)))).
           \<exists>val \<in> set (map (\<lambda>(g, v, osd_id). v)
                         (filter (\<lambda>(g, v, osd_id). grouping_name g = gn) (unmapped s))).
             None \<in> set (take 5 (ids_of (unmapped s) gn val)))
        \<longleftrightarrow> null_id_listed s"
    (is "?L \<longleftrightarrow> _")
  proof
    assume ?L
    then obtain gn val where
      val: "val \<in> set (map (\<lambda>(g, v, osd_id). v)
                         (filter (\<lambda>(g, v, osd_id). grouping_name g = gn) (unmapped s)))"
      and n: "None \<in> set (take 5 (ids_of (unmapped s) gn val))"
      by blast
    from val obtain g osd_id where "(g, val, osd_id) \<in> set (unmapped s)" "grouping_name g = gn"
      by auto
    then show "null_id_listed s"
      using n unfolding null_id_listed_def by blast
  next
    assume "null_id_listed s"
    then obtain g v osd_id where r: "(g, v, osd_id) \<in> set (unmapped s)"
      and n: "None \<in> set (take 5 (ids_of (unmapped s) (grouping_name g) v))"
      unfolding null_id_listed_def by blast
    have "grouping_name g \<in> set (sort (remdups (map (\<lambda>(g, v, osd_id). grouping_name g)
                                                  (unmapped s))))"
      using r by force
    moreover have "v \<in> set (map (\<lambda>(g', v, osd_id). v)
                              (filter (\<lambda>(g', v, osd_id). grouping_name g' = grouping_name g)
                                 (unmapped s)))"
      using r by force
    ultimately show ?L
      using n by blast
  qed
  then show ?thesis
    unfolding unmapped_report_def by (simp only: write_groups_result)
qed

lemma save_outputs_result:
  "save_outputs s files
     = (if null_id_listed s then Some TypeError else None,
        files @ [(''filter-options-new.json'', Taxonomy (generate_output_json s)),
                 (''additions-report.txt'', Additions_Report (additions_report s)),
                 (''unmapped-report.txt'', Unmapped_Report (snd (unmapped_report s)))])"
  using unmapped_report_result [of s]
  by (cases "unmapped_report s") (simp add: save_outputs_def)

lemma null_id_listed_record:
  assumes "null_id_listed s"
  shows "\<exists>g v. (g, v, None) \<in> set (unmapped s)"
proof -
  obtain g v where "None \<in> set (take 5 (ids_of (unmapped s) (grouping_name g) v))"
    using assms unfolding null_id_listed_def by blast
  then have "None \<in> set (ids_of (unmapped s) (grouping_name g) v)"
    by (rule in_set_takeD)
  then show ?thesis
    unfolding ids_of_record by blast
qed

lemma run_after_pass:
  assumes "process_api_data s0 = Inr s'"
  shows "run s0 files = (if null_id_listed s' then Inl TypeError
                         else Inr (verify_completeness s'),
                         snd (save_outputs s' files))"
  using assms by (simp add: run_def save_outputs_result)

lemma main_after_pass:
  assumes "process_api_data s0 = Inr s'"
  shows "main (Inr s0) files = (if \<not> null_id_listed s' \<and> verify_completeness s'
                                then 0 else 1,
                                snd (save_outputs s' files))"
  using assms by (simp add: main_def run_def save_outputs_result)

section \<open>Completeness\<close>

lemma not_Mission_cases:
  "g \<noteq> Mission \<Longrightarrow>
   g \<in> {Project_Type, Assay_technology_type, Factor, Organism, Material_type}"
  by (cases g) simp_all

lemma pass_preserves_snapshot:
  assumes init: "init_generator doc a f o' m mi = Inr s0"
    and pass: "process_api_data s0 = Inr s'"
    and es: "existing_structure s0 g = Some categories"
    and entry: "(c, vs) \<in> set categories" and v: "v \<in> vs"
  shows "g \<noteq> Mission \<and> v \<in> dict_get (new_json s' g) c
         \<and> (\<exists>vs'. (c, vs') \<in> set (new_json s' g) \<and> v \<in> vs')"
proof -
  have s0: "wf_structure (existing_structure s0)"
    "s0 = new_generator (existing_structure s0) a f o' m mi"
    using init_generator_Inr [OF init] by simp_all
  have wf: "g \<noteq> Mission" "wf_catmap categories" "new_json s0 g = categories"
    using new_generator_new_json [OF s0(1) es, of a f o' m mi] s0(2) by simp_all
  have "dict_get (new_json s0 g) c = vs"
    using wf(2,3) entry by (simp add: dict_get_entry wf_catmap_def)
  moreover have "s' = fold exec (pass_steps s0) s0"
    using pass by (simp add: process_api_data_eq)
  ultimately have "v \<in> dict_get (new_json s' g) c"
    using v fold_exec_mono [of s0 g c "pass_steps s0"] by auto
  then show ?thesis
    using wf(1) dict_get_mem_entry [of v "new_json s' g" c] by simp
qed

lemma pass_snapshot_kept:
  assumes "process_api_data s0 = Inr s'"
  shows "existing_structure s' = existing_structure s0"
proof -
  have "s' = fold exec (pass_steps s0) s0"
    using assms by (simp add: process_api_data_eq)
  then show ?thesis
    using fold_exec_frame [of "pass_steps s0" s0] by simp
qed

lemma pass_missing_empty:
  assumes init: "init_generator doc a f o' m mi = Inr s0"
    and pass: "process_api_data s0 = Inr s'"
  shows "missing_values s' = {}"
proof -
  have es: "existing_structure s' = existing_structure s0"
    using pass by (rule pass_snapshot_kept)
  have "x \<in> new_values s'" if "x \<in> original_values s'" for x
  proof -
    from that obtain g categories c vs v where
      g: "existing_structure s0 g = Some categories"
      and entry: "(c, vs) \<in> set categories" and v: "v \<in> vs" and x: "x = norm v"
      by (auto simp: original_values_def es split: option.splits)
    obtain vs' where "g \<noteq> Mission" "(c, vs') \<in> set (new_json s' g)" "v \<in> vs'"
      using pass_preserves_snapshot [OF init pass g entry v] by blast
    then show ?thesis
      using x not_Mission_cases [of g] unfolding new_values_def by blast
  qed
  then show ?thesis
    by (auto simp: missing_values_def)
qed

text \<open>
  C1. The generator \<open>s0\<close> is fresh from the constructor, with the snapshot index extracted
  from the document, and \<open>s'\<close> is the generator after a full reconciliation pass. Every
  value of every category of the five snapshot groupings is still in the same category of
  the same grouping of the output index, so that the output grouping has a value with the
  same normalized form. The snapshot is unchanged, the verifier's missing set is empty and
  the run is judged successful, whatever the feeds are and however many additions and
  unmapped items they give: \<^verbatim>\<open>run\<close> returns \<^verbatim>\<open>True\<close> and the exit code is 0, unless
  writing the unmapped report raises on a subject-identifier that is \<^verbatim>\<open>null\<close>.
\<close>

theorem completeness_invariant:
  assumes "init_generator doc a f o' m mi = Inr s0" and "process_api_data s0 = Inr s'"
  shows "extract_existing_structure doc = Inr (existing_structure s0)
         \<and> existing_structure s' = existing_structure s0
         \<and> (\<forall>g categories c vs v.
              existing_structure s0 g = Some categories \<longrightarrow>
              (c, vs) \<in> set categories \<longrightarrow> v \<in> vs \<longrightarrow>
                g \<noteq> Mission \<and> v \<in> dict_get (new_json s' g) c
                \<and> (\<exists>entry \<in> set (new_json s' g). \<exists>v' \<in> snd entry. norm v' = norm v))
         \<and> missing_values s' = {}
         \<and> verify_completeness s'
         \<and> run s0 files = (if null_id_listed s' then Inl TypeError else Inr True,
                            snd (save_outputs s' files))
         \<and> main (Inr s0) files = (if null_id_listed s' then 1 else 0,
                                    snd (save_outputs s' files))"
proof (intro conjI allI impI)
  show "extract_existing_structure doc = Inr (existing_structure s0)"
    using init_generator_Inr [OF assms(1)] by simp
  show "existing_structure s' = existing_structure s0"
    using assms(2) by (rule pass_snapshot_kept)
  show m: "missing_values s' = {}"
    using assms by (rule pass_missing_empty)
  then show v: "verify_completeness s'"
    by (simp add: verify_completeness_def)
  show "run s0 files = (if null_id_listed s' then Inl TypeError else Inr True,
                        snd (save_outputs s' files))"
    using run_after_pass [OF assms(2), of files] v by simp
  show "main (Inr s0) files = (if null_id_listed s' then 1 else 0,
                               snd (save_outputs s' files))"
    using main_after_pass [OF assms(2), of files] v by simp
next
  fix g categories c vs v
  assume "existing_structure s0 g = Some categories" "(c, vs) \<in> set categories" "v \<in> vs"
  note kept = pass_preserves_snapshot [OF assms this]
  show "g \<noteq> Mission"
    using kept by simp
  show "v \<in> dict_get (new_json s' g) c"
    using kept by simp
  show "\<exists>entry \<in> set (new_json s' g). \<exists>v' \<in> snd entry. norm v' = norm v"
    using kept by force
qed

text \<open>
  The scenario: the constructor gives the scenario's generator, the pass succeeds,
  \<^verbatim>\<open>Mus musculus\<close> is kept and, the only unmapped record having a subject-identifier, the
  outputs are written and the exit code is 0.
\<close>

theorem completeness_invariant_witness:
  "init_generator scenario_document (assay_data scenario) (factor_data scenario)
     (organism_data scenario) (material_data scenario) (mission_data scenario) = Inr scenario
   \<and> map_sum id (\<lambda>s. new_json s Organism) (process_api_data scenario)
     = Inr [(''Rodents'', {''mus musculus'', ''Mus musculus''}),
            (''Other Organisms'', {''Rattus norvegicus''})]
   \<and> (\<exists>s'. process_api_data scenario = Inr s'
         \<and> ''Mus musculus'' \<in> dict_get (new_json s' Organism) ''Rodents''
         \<and> missing_values s' = {}
         \<and> run scenario [] = (Inr True, snd (save_outputs s' []))
         \<and> main (Inr scenario) [] = (0, snd (save_outputs s' [])))"
proof -
  obtain s' where s': "process_api_data scenario = Inr s'"
    using scenario_pass by (cases "process_api_data scenario") simp_all
  have es: "existing_structure scenario Organism = Some [(''Rodents'', {''Mus musculus''})]"
    by (simp add: scenario_def new_generator_def scenario_structure_def)
  have "unmapped s' = [(Organism, ''Rattus norvegicus'', Some ''OSD-101'')]"
    using s' scenario_pass by simp
  then have saved: "\<not> null_id_listed s'"
    using null_id_listed_record [of s'] by auto
  note all = completeness_invariant [OF scenario_constructed s', of "[]"]
  have kept: "''Mus musculus'' \<in> dict_get (new_json s' Organism) ''Rodents''"
    using all [THEN conjunct2, THEN conjunct2, THEN conjunct1, rule_format,
        of Organism "[(''Rodents'', {''Mus musculus''})]" "''Rodents''" "{''Mus musculus''}"
          "''Mus musculus''"] es
    by simp
  have rest: "missing_values s' = {}"
    "run scenario [] = (Inr True, snd (save_outputs s' []))"
    "main (Inr scenario) [] = (0, snd (save_outputs s' []))"
    using all saved by simp_all
  show ?thesis
    using s' scenario_pass scenario_constructed kept rest by simp
qed

text \<open>
  C5. A second reconciliation pass over the result of a first one, with the same feeds and
  the same snapshot index, succeeds and changes nothing: no further addition record, no
  further unmapped record, the same output index.
\<close>

theorem reconciliation_idempotent:
  assumes "process_api_data s = Inr s1"
  shows "\<exists>s2. process_api_data s1 = Inr s2
           \<and> additions s2 = additions s1 \<and> unmapped s2 = unmapped s1
           \<and> length (additions s2) = length (additions s1)
           \<and> new_json s2 = new_json s1 \<and> s2 = s1"
  using process_api_data_twice [OF assms] by simp

text \<open>The scenario: one addition and one unmapped record after one pass and after two.\<close>

theorem reconciliation_idempotent_witness:
  "\<exists>s1. process_api_data scenario = Inr s1
      \<and> additions s1 = [(Organism, ''Rodents'', ''mus musculus'')]
      \<and> unmapped s1 = [(Organism, ''Rattus norvegicus'', Some ''OSD-101'')]
      \<and> (\<exists>s2. process_api_data s1 = Inr s2
             \<and> additions s2 = [(Organism, ''Rodents'', ''mus musculus'')]
             \<and> unmapped s2 = [(Organism, ''Rattus norvegicus'', Some ''OSD-101'')])"
proof -
  obtain s1 where s1: "process_api_data scenario = Inr s1"
    using scenario_pass by (cases "process_api_data scenario") simp_all
  have "additions s1 = [(Organism, ''Rodents'', ''mus musculus'')]"
    and "unmapped s1 = [(Organism, ''Rattus norvegicus'', Some ''OSD-101'')]"
    using s1 scenario_pass by simp_all
  then show ?thesis
    using s1 reconciliation_idempotent [OF s1] by auto
qed

section \<open>The insertion guard\<close>

lemma find_SomeD: "find P xs = Some x \<Longrightarrow> x \<in> set xs \<and> P x"
  by (induction xs) (auto split: if_splits)

lemma find_category_match:
  assumes es: "existing_structure self g = Some categories"
    and entry: "(c, vs) \<in> set categories" and e: "e \<in> vs" "norm e = norm v"
  shows "\<exists>category vs'. find_category_for_value self v g = Some category
           \<and> (category, vs') \<in> set categories \<and> (\<exists>e' \<in> vs'. norm e' = norm v)"
proof -
  let ?P = "\<lambda>(category, vs). \<exists>existing_val \<in> vs. norm existing_val = norm v"
  have "?P (c, vs)"
    using e by auto
  then have "find ?P categories \<noteq> None"
    using entry by (auto simp: find_None_iff)
  then obtain x where x: "find ?P categories = Some x"
    by auto
  then have "x \<in> set categories" "?P x"
    using find_SomeD [of ?P categories x] by simp_all
  then show ?thesis
    using x es by (cases x) (auto simp: find_category_for_value_def)
qed

text \<open>
  C2. When the normalized form of an observed value matches a value of some category of
  the extracted snapshot of its grouping, a category is found, and the insertion guard
  tests the raw string only: if the raw value is not in the output set of the found
  category, it is inserted there and exactly one addition record is appended (and no
  unmapped record), whether or not a case or whitespace variant of it is already there.
\<close>

theorem raw_presence_guard:
  assumes "extract_existing_structure doc = Inr (existing_structure self)"
    and "existing_structure self g = Some categories"
    and "(c, vs) \<in> set categories" and "e \<in> vs" and "norm e = norm v"
  shows "\<exists>category. find_category_for_value self v g = Some category \<and> category \<noteq> []
           \<and> (\<exists>e' \<in> dict_get categories category. norm e' = norm v)
           \<and> (v \<notin> dict_get (new_json self g) category \<longrightarrow>
                place_value g other v osd_id self
                  = self\<lparr>new_json := (new_json self)(g := set_add (new_json self g) category v),
                         additions := additions self @ [(g, category, v)]\<rparr>
                \<and> v \<in> dict_get (new_json (place_value g other v osd_id self) g) category
                \<and> dict_get (new_json (place_value g other v osd_id self) g) category
                    = insert v (dict_get (new_json self g) category)
                \<and> unmapped (place_value g other v osd_id self) = unmapped self)"
proof -
  obtain category vs' where f: "find_category_for_value self v g = Some category"
    and entry: "(category, vs') \<in> set categories" and m: "\<exists>e' \<in> vs'. norm e' = norm v"
    using find_category_match [OF assms(2-5)] by blast
  have "wf_structure (existing_structure self)"
    using assms(1) by (rule wf_extract_existing_structure)
  then have wf: "wf_catmap categories"
    using assms(2) new_generator_new_json [of "existing_structure self" g categories]
    by simp
  then have ne: "category \<noteq> []"
    using entry by (force simp: wf_catmap_def)
  have "dict_get categories category = vs'"
    using wf entry by (simp add: dict_get_entry wf_catmap_def)
  then show ?thesis
    using f ne m
    by (simp add: place_value_def add_to_category_def dict_get_set_add)
qed

text \<open>
  The scenario: \<^verbatim>\<open>mus musculus\<close> is observed against \<^verbatim>\<open>Rodents\<close>, which holds only
  \<^verbatim>\<open>Mus musculus\<close>; a second raw entry is inserted and one addition is recorded.
\<close>

theorem raw_presence_guard_witness:
  "find_category_for_value scenario ''mus musculus'' Organism = Some ''Rodents''
   \<and> dict_get (new_json scenario Organism) ''Rodents'' = {''Mus musculus''}
   \<and> additions (place_value Organism ''Other Organisms'' ''mus musculus'' (Some ''OSD-100'') scenario)
       = [(Organism, ''Rodents'', ''mus musculus'')]
   \<and> dict_get (new_json
         (place_value Organism ''Other Organisms'' ''mus musculus'' (Some ''OSD-100'') scenario)
         Organism) ''Rodents'' = {''mus musculus'', ''Mus musculus''}
   \<and> (\<exists>s. process_api_data scenario = Inr s
         \<and> new_json s Organism = [(''Rodents'', {''mus musculus'', ''Mus musculus''}),
                                   (''Other Organisms'', {''Rattus norvegicus''})]
         \<and> additions s = [(Organism, ''Rodents'', ''mus musculus'')])"
proof -
  have es: "extract_existing_structure scenario_document = Inr (existing_structure scenario)"
    by (simp add: scenario_extracted scenario_def new_generator_def)
  have g: "existing_structure scenario Organism = Some [(''Rodents'', {''Mus musculus''})]"
    by (simp add: scenario_def new_generator_def scenario_structure_def)
  have n: "norm ''Mus musculus'' = norm ''mus musculus''"
    by (simp add: string_eval)
  have f: "find_category_for_value scenario ''mus musculus'' Organism = Some ''Rodents''"
    by (simp add: find_category_for_value_def g string_eval)
  have d: "dict_get (new_json scenario Organism) ''Rodents'' = {''Mus musculus''}"
    by (simp add: scenario_def new_generator_def scenario_structure_def
        initialize_from_existing_def dict_get_def)
  have a: "additions scenario = []"
    by (simp add: scenario_def new_generator_def)
  have "additions (place_value Organism ''Other Organisms'' ''mus musculus'' (Some ''OSD-100'') scenario)
       = [(Organism, ''Rodents'', ''mus musculus'')]
   \<and> dict_get (new_json
         (place_value Organism ''Other Organisms'' ''mus musculus'' (Some ''OSD-100'') scenario)
         Organism) ''Rodents'' = {''mus musculus'', ''Mus musculus''}"
    using raw_presence_guard [OF es g _ _ n, of "''Rodents''" "{''Mus musculus''}"
        "''Other Organisms''" "Some ''OSD-100''"] f d a
    by (simp add: dict_get_set_add)
  then show ?thesis
    using f d scenario_result by auto
qed

section \<open>The mission classifier\<close>

lemma classify_mission_spec: "classify_mission piece = spec_classify piece"
  by (simp add: classify_mission_def spec_classify_def spec_mission_rules_def
      spec_rule_matches_def Let_def py_any_in_def)

lemma classify_mission_category: "classify_mission piece \<in> set mission_categories"
  by (simp add: classify_mission_def mission_categories_def Let_def)

lemma process_pieces_spec:
  "process_pieces (split_missions missions_str) osd_id self =
     fold (\<lambda>piece. add_mission piece osd_id) (spec_pieces missions_str) self"
proof -
  have "process_pieces ps osd_id s =
          fold (\<lambda>piece. add_mission piece osd_id) (filter (\<lambda>piece. piece \<noteq> []) ps) s" for ps s
    by (induction ps arbitrary: s) simp_all
  then show ?thesis
    by (simp add: split_missions_def spec_pieces_def)
qed

lemma split_acc_no_sep:
  "sep \<notin> set acc \<Longrightarrow> \<forall>p \<in> set (split_acc sep acc s). sep \<notin> set p"
  by (induction sep acc s rule: split_acc.induct) auto

lemma py_strip_subset: "set (py_strip s) \<subseteq> set s"
proof -
  have "set (dropWhile P xs) \<subseteq> set xs" for P and xs :: string
    by (metis set_dropWhileD subsetI)
  then have "set (rev (dropWhile py_isspace (rev (dropWhile py_isspace s))))
             \<subseteq> set (dropWhile py_isspace s)"
    by (metis set_rev)
  also have "\<dots> \<subseteq> set s"
    by (metis set_dropWhileD subsetI)
  finally show ?thesis
    by (simp add: py_strip_def)
qed

lemma spec_pieces_trimmed:
  assumes "piece \<in> set (spec_pieces missions_str)"
  shows "piece \<noteq> [] \<and> py_strip piece = piece \<and> CHR '','' \<notin> set piece"
proof -
  obtain raw where raw: "raw \<in> set (py_split CHR '','' missions_str)"
    and piece: "piece = py_strip raw" "piece \<noteq> []"
    using assms by (auto simp: spec_pieces_def)
  have "CHR '','' \<notin> set raw"
    using raw split_acc_no_sep [of "CHR '',''" "[]" missions_str] by (simp add: py_split_def)
  then have "CHR '','' \<notin> set piece"
    using piece(1) py_strip_subset [of raw] by auto
  then show ?thesis
    using piece by (simp add: py_strip_idem)
qed

lemma add_mission_placed:
  "mission \<in> dict_get (new_json (add_mission mission osd_id self) Mission)
                (classify_mission mission)"
  by (simp add: add_mission_def Let_def dict_get_set_add)

text \<open>
  C3. The loop over a composite observation string places exactly the pieces of the
  specification: the string split on commas, each piece trimmed, the empty pieces dropped;
  so every placed piece is non-empty, trimmed and free of commas. The category of a piece
  is the category of the first rule of the specification's table that matches it, or
  \<^verbatim>\<open>Other Missions\<close> when none does; it is one of the ten categories, and the piece is in
  that category of the Mission grouping after it has been placed. The string
  \<^verbatim>\<open>RR-5, Expedition 45\<close> has the pieces \<^verbatim>\<open>RR-5\<close>, classified as Rodent Research, and
  \<^verbatim>\<open>Expedition 45\<close>, classified as ISS Expeditions.
\<close>

theorem mission_classification:
  "process_pieces (split_missions missions_str) osd_id self
     = fold (\<lambda>piece. add_mission piece osd_id) (spec_pieces missions_str) self
   \<and> (\<forall>piece \<in> set (spec_pieces missions_str).
         piece \<noteq> [] \<and> py_strip piece = piece \<and> CHR '','' \<notin> set piece)
   \<and> classify_mission piece = spec_classify piece
   \<and> classify_mission piece \<in> set mission_categories
   \<and> piece \<in> dict_get (new_json (add_mission piece osd_id self) Mission)
                (classify_mission piece)
   \<and> spec_pieces ''RR-5, Expedition 45'' = [''RR-5'', ''Expedition 45'']
   \<and> classify_mission ''RR-5'' = ''Rodent Research''
   \<and> classify_mission ''Expedition 45'' = ''ISS Expeditions''"
proof -
  have "spec_pieces ''RR-5, Expedition 45'' = [''RR-5'', ''Expedition 45'']"
    by (simp add: spec_pieces_def string_eval)
  moreover have "classify_mission ''RR-5'' = ''Rodent Research''"
    by (simp add: classify_mission_def string_eval)
  moreover have "classify_mission ''Expedition 45'' = ''ISS Expeditions''"
    by (simp add: classify_mission_def string_eval)
  ultimately show ?thesis
    using process_pieces_spec [of missions_str osd_id self]
      spec_pieces_trimmed [of _ missions_str]
      classify_mission_spec [of piece] classify_mission_category [of piece]
      add_mission_placed [of piece osd_id self]
    by blast
qed

text \<open>The example string, placed into the scenario's empty Mission grouping.\<close>

theorem mission_classification_witness:
  "''RR-5'' \<in> set (spec_pieces ''RR-5, Expedition 45'')
   \<and> py_strip ''RR-5'' = ''RR-5''
   \<and> spec_classify ''RR-5'' = ''Rodent Research''
   \<and> spec_classify ''Expedition 45'' = ''ISS Expeditions''
   \<and> new_json (process_pieces (split_missions ''RR-5, Expedition 45'') (Some ''OSD-1'') scenario)
        Mission
       = [(''Rodent Research'', {''RR-5''}), (''ISS Expeditions'', {''Expedition 45''})]"
proof -
  note rr = mission_classification [of "''RR-5, Expedition 45''" "Some ''OSD-1''" scenario "''RR-5''"]
  note ex = mission_classification [of "''RR-5, Expedition 45''" "Some ''OSD-1''" scenario
      "''Expedition 45''"]
  have pieces: "spec_pieces ''RR-5, Expedition 45'' = [''RR-5'', ''Expedition 45'']"
    using rr by blast
  have m: "''RR-5'' \<in> set (spec_pieces ''RR-5, Expedition 45'')"
    by (simp add: pieces)
  have trimmed: "py_strip ''RR-5'' = ''RR-5''"
    using m rr by blast
  have c1: "classify_mission ''RR-5'' = ''Rodent Research''"
    using rr by blast
  have c2: "classify_mission ''Expedition 45'' = ''ISS Expeditions''"
    using rr by blast
  have s1: "spec_classify ''RR-5'' = ''Rodent Research''"
    using rr by metis
  have s2: "spec_classify ''Expedition 45'' = ''ISS Expeditions''"
    using ex by metis
  have run: "process_pieces (split_missions ''RR-5, Expedition 45'') (Some ''OSD-1'') scenario
       = fold (\<lambda>piece. add_mission piece (Some ''OSD-1'')) (spec_pieces ''RR-5, Expedition 45'')
           scenario"
    using rr by blast
  have empty: "new_json scenario Mission = []"
    by (simp add: scenario_def new_generator_def initialize_from_existing_def
        scenario_structure_def empty_structure_def)
  have "new_json (process_pieces (split_missions ''RR-5, Expedition 45'') (Some ''OSD-1'') scenario)
        Mission = [(''Rodent Research'', {''RR-5''}), (''ISS Expeditions'', {''Expedition 45''})]"
    by (simp add: run pieces add_mission_def c1 c2 empty set_add_def dict_get_def)
  then show ?thesis
    using m trimmed s1 s2 by simp
qed

section \<open>The entry point\<close>











section \<open>The steps of a pass\<close>

lemma pass_steps_ok: "st \<in> set (pass_steps s) \<Longrightarrow> pass_step st"
  by (auto simp: pass_steps_def value_steps_def factor_steps_def mission_steps_def
      spec_pieces_def)

lemma find_category_None:
  "find_category_for_value self v g = None \<longleftrightarrow> \<not> normalized_match self g v"
  by (auto simp: find_category_for_value_def normalized_match_def find_None_iff
      split: option.splits)

lemma value_steps_mem:
  "(v, osd_id) \<in> set obs \<Longrightarrow> Place g (other_category g) v osd_id \<in> set (value_steps g obs)"
  by (induction obs) (auto simp: value_steps_def)

lemma mission_steps_mem:
  "(missions_str, osd_id) \<in> set obs \<Longrightarrow> piece \<in> set (spec_pieces missions_str) \<Longrightarrow>
   Add_Mission piece osd_id \<in> set (mission_steps obs)"
  by (induction obs) (auto simp: mission_steps_def)

lemma observed_step:
  assumes "v \<in> observed s g" "g \<noteq> Mission"
  shows "\<exists>osd_id. Place g (other_category g) v osd_id \<in> set (pass_steps s)"
proof (cases g)
  case Project_Type
  then show ?thesis using assms by simp
next
  case Assay_technology_type
  then obtain osd_id where "(v, osd_id) \<in> set (assay_observations s)"
    using assms by auto
  then have "Place g (other_category g) v osd_id \<in> set (pass_steps s)"
    using value_steps_mem [of v osd_id "assay_observations s" g] Assay_technology_type
    by (simp add: pass_steps_def)
  then show ?thesis ..
next
  case Factor
  then obtain col where "col \<in> set (factor_cols s)" "v = factor_name col"
    using assms by auto
  then have "Place g (other_category g) v (Some ''schema'') \<in> set (pass_steps s)"
    using Factor by (simp add: pass_steps_def factor_steps_def)
  then show ?thesis ..
next
  case Organism
  then obtain osd_id where "(v, osd_id) \<in> set (organism_observations s)"
    using assms by auto
  then have "Place g (other_category g) v osd_id \<in> set (pass_steps s)"
    using value_steps_mem [of v osd_id "organism_observations s" g] Organism
    by (simp add: pass_steps_def)
  then show ?thesis ..
next
  case Material_type
  then obtain osd_id where "(v, osd_id) \<in> set (material_observations s)"
    using assms by auto
  then have "Place g (other_category g) v osd_id \<in> set (pass_steps s)"
    using value_steps_mem [of v osd_id "material_observations s" g] Material_type
    by (simp add: pass_steps_def)
  then show ?thesis ..
next
  case Mission
  then show ?thesis using assms by simp
qed

lemma observed_mission_step:
  assumes "piece \<in> observed s Mission"
  shows "\<exists>osd_id. Add_Mission piece osd_id \<in> set (pass_steps s)"
proof -
  obtain missions_str osd_id where "(missions_str, osd_id) \<in> set (mission_observations s)"
    "piece \<in> set (spec_pieces missions_str)"
    using assms by auto
  then have "Add_Mission piece osd_id \<in> set (pass_steps s)"
    using mission_steps_mem [of missions_str osd_id "mission_observations s" piece]
    by (simp add: pass_steps_def)
  then show ?thesis ..
qed

section \<open>Unmapped records\<close>

lemma unmapped_count_append:
  "unmapped s' = unmapped s @ [(g', v', i)] \<Longrightarrow>
   unmapped_count s' g v = unmapped_count s g v + (if g' = g \<and> v' = v then 1 else 0)"
  by (simp add: unmapped_count_def)

lemma unmapped_count_same:
  "unmapped s' = unmapped s \<Longrightarrow> unmapped_count s' g v = unmapped_count s g v"
  by (simp add: unmapped_count_def)

lemma value_invariant_add_to_other:
  assumes "value_invariant g v s" "other = other_category g'"
  shows "value_invariant g v (add_to_other g' other v' osd_id s)"
proof (cases "v' \<in> dict_get (new_json s g') other")
  case True
  then show ?thesis
    using assms by (simp add: add_to_other_def)
next
  case False
  let ?s' = "s\<lparr>new_json := (new_json s)(g' := set_add (new_json s g') other v'),
               unmapped := unmapped s @ [(g', v', osd_id)]\<rparr>"
  have eq: "add_to_other g' other v' osd_id s = ?s'"
    using False by (simp add: add_to_other_def)
  have c: "unmapped_count ?s' g v
             = unmapped_count s g v + (if g' = g \<and> v' = v then 1 else 0)"
    by (rule unmapped_count_append) simp
  show ?thesis
    unfolding eq using assms False c
    by (auto simp: value_invariant_def dict_get_set_add)
qed

lemma value_invariant_add_to_category:
  assumes "value_invariant g v s" "\<not> (g' = g \<and> v' = v)"
  shows "value_invariant g v (add_to_category g' c v' s)"
proof (cases "v' \<in> dict_get (new_json s g') c")
  case True
  then show ?thesis
    using assms by (simp add: add_to_category_def)
next
  case False
  let ?s' = "s\<lparr>new_json := (new_json s)(g' := set_add (new_json s g') c v'),
               additions := additions s @ [(g', c, v')]\<rparr>"
  have eq: "add_to_category g' c v' s = ?s'"
    using False by (simp add: add_to_category_def)
  have c: "unmapped_count ?s' g v = unmapped_count s g v"
    by (rule unmapped_count_same) simp
  show ?thesis
    unfolding eq using assms c
    by (auto simp: value_invariant_def dict_get_set_add)
qed

lemma value_invariant_add_mission:
  assumes "value_invariant g v s" "g \<noteq> Mission"
  shows "value_invariant g v (add_mission m osd_id s)"
proof (cases "m \<in> dict_get (new_json s Mission) (classify_mission m)")
  case True
  then show ?thesis
    using assms by (simp add: add_mission_def)
next
  case False
  define s' where "s' = add_mission m osd_id s"
  have nj: "new_json s' g = new_json s g" and ad: "additions s' = additions s"
    using assms(2) by (simp_all add: s'_def add_mission_def Let_def)
  have "unmapped s' = unmapped s \<or> unmapped s' = unmapped s @ [(Mission, m, osd_id)]"
    by (simp add: s'_def add_mission_def Let_def)
  then have "unmapped_count s' g v = unmapped_count s g v"
    using assms(2) unmapped_count_same [of s' s g v]
      unmapped_count_append [of s' s Mission m osd_id g v] by auto
  then show ?thesis
    using assms(1) nj ad unfolding s'_def [symmetric] by (simp add: value_invariant_def)
qed

lemma value_invariant_exec:
  assumes inv: "value_invariant g v s" and st: "pass_step st" and g: "g \<noteq> Mission"
    and none: "find_category_for_value s v g = None"
  shows "value_invariant g v (exec st s)"
proof (cases st)
  case (Add_Id osd_id)
  then show ?thesis
    using inv by (simp add: value_invariant_def unmapped_count_def)
next
  case (Place g' other v' osd_id)
  then have other: "other = other_category g'"
    using st by simp
  show ?thesis
  proof (cases "find_category_for_value s v' g'")
    case None
    then show ?thesis
      using Place inv other by (simp add: place_value_def value_invariant_add_to_other)
  next
    case (Some c)
    then have "\<not> (g' = g \<and> v' = v)"
      using none by auto
    then show ?thesis
      using Place Some inv other
      by (simp add: place_value_def value_invariant_add_to_other
          value_invariant_add_to_category)
  qed
next
  case (Add_Mission m osd_id)
  then show ?thesis
    using inv g by (simp add: value_invariant_add_mission)
qed

lemma value_invariant_fold:
  assumes "value_invariant g v s" "\<forall>st \<in> set sts. pass_step st" "g \<noteq> Mission"
    "find_category_for_value s v g = None"
  shows "value_invariant g v (fold exec sts s)"
  using assms
proof (induction sts arbitrary: s)
  case Nil
  then show ?case by simp
next
  case (Cons st sts)
  have "find_category_for_value (exec st s) v g = find_category_for_value s v g"
    using exec_frame [of st s] by (intro find_category_cong) simp
  then show ?case
    using Cons.prems Cons.IH [of "exec st s"] value_invariant_exec [of g v s st]
    by simp
qed

lemma wide_scenario_pass:
  "map_sum id (\<lambda>s. (new_json s Assay_technology_type, new_json s Factor, new_json s Mission,
                     additions s, unmapped s, all_osd_ids s))
     (process_api_data wide_scenario)
   = Inr ([(''Other Assay Types'', {''Quantum Flux Sequencing''})],
          [(''other'', {''spaceflight''})],
          [(''Rodent Research'', {''RR-5''}), (''ISS Expeditions'', {''Expedition 45''}),
           (''Other Missions'', {''Mystery-1''})],
          [(Organism, ''Rodents'', ''mus musculus'')],
          [(Assay_technology_type, ''Quantum Flux Sequencing'', Some ''OSD-7''),
           (Factor, ''spaceflight'', Some ''schema''),
           (Organism, ''Rattus norvegicus'', Some ''OSD-101''),
           (Mission, ''Mystery-1'', Some ''OSD-1'')],
          {Some ''OSD-7'', Some ''OSD-8'', Some ''OSD-100'', Some ''OSD-101'', Some ''OSD-1'', Some ''OSD-2''})"
  by (simp add: wide_scenario_def scenario_structure_def empty_structure_def pass_eval string_eval
      set_add_def dict_get_def insert_commute)

section \<open>Mission pieces\<close>

lemma place_value_effect:
  "\<exists>c. (place_value g other v osd_id s = s)
     \<or> (place_value g other v osd_id s
          = s\<lparr>new_json := (new_json s)(g := set_add (new_json s g) c v),
                additions := additions s @ [(g, c, v)]\<rparr>)
     \<or> (place_value g other v osd_id s
          = s\<lparr>new_json := (new_json s)(g := set_add (new_json s g) c v),
                unmapped := unmapped s @ [(g, v, osd_id)]\<rparr>)"
proof (cases "find_category_for_value s v g")
  case None
  then show ?thesis
    by (simp add: place_value_def add_to_other_def) blast
next
  case (Some c)
  show ?thesis
  proof (cases "c = []")
    case True
    then show ?thesis
      using Some by (simp add: place_value_def add_to_other_def) blast
  next
    case False
    then show ?thesis
      using Some by (simp add: place_value_def add_to_category_def) blast
  qed
qed

lemma mission_invariant_place:
  assumes "mission_invariant piece s" "g \<noteq> Mission"
  shows "mission_invariant piece (place_value g other v osd_id s)"
proof -
  define s' where "s' = place_value g other v osd_id s"
  obtain c where "s' = s
     \<or> s' = s\<lparr>new_json := (new_json s)(g := set_add (new_json s g) c v),
                additions := additions s @ [(g, c, v)]\<rparr>
     \<or> s' = s\<lparr>new_json := (new_json s)(g := set_add (new_json s g) c v),
                unmapped := unmapped s @ [(g, v, osd_id)]\<rparr>"
    using place_value_effect [of g other v osd_id s] unfolding s'_def by blast
  then consider "s' = s"
    | "s' = s\<lparr>new_json := (new_json s)(g := set_add (new_json s g) c v),
               additions := additions s @ [(g, c, v)]\<rparr>"
    | "s' = s\<lparr>new_json := (new_json s)(g := set_add (new_json s g) c v),
               unmapped := unmapped s @ [(g, v, osd_id)]\<rparr>"
    by blast
  then have "mission_invariant piece s'"
  proof cases
    case 1
    then show ?thesis using assms by simp
  next
    case 2
    then have "unmapped_count s' Mission piece = unmapped_count s Mission piece"
      by (intro unmapped_count_same) simp
    then show ?thesis
      using assms 2 by (simp add: mission_invariant_def)
  next
    case 3
    then have "unmapped_count s' Mission piece = unmapped_count s Mission piece"
      using unmapped_count_append [of s' s g v osd_id Mission piece] assms(2) by simp
    then show ?thesis
      using assms 3 by (simp add: mission_invariant_def)
  qed
  then show ?thesis
    by (simp add: s'_def)
qed

lemma mission_invariant_add_mission:
  assumes "mission_invariant piece s"
  shows "mission_invariant piece (add_mission m osd_id s)"
proof (cases "m \<in> dict_get (new_json s Mission) (classify_mission m)")
  case True
  then show ?thesis
    using assms by (simp add: add_mission_def)
next
  case False
  define s' where "s' = add_mission m osd_id s"
  have nj: "new_json s' Mission = set_add (new_json s Mission) (classify_mission m) m"
    and ad: "additions s' = additions s"
    using False by (simp_all add: s'_def add_mission_def Let_def)
  show ?thesis
  proof (cases "classify_mission m = ''Other Missions''")
    case True
    then have "unmapped s' = unmapped s @ [(Mission, m, osd_id)]"
      using False by (simp add: s'_def add_mission_def Let_def)
    then have "unmapped_count s' Mission piece
                 = unmapped_count s Mission piece + (if m = piece then 1 else 0)"
      using unmapped_count_append [of s' s Mission m osd_id Mission piece] by simp
    then have "mission_invariant piece s'"
      using assms nj ad True False
      by (auto simp: mission_invariant_def dict_get_set_add)
    then show ?thesis
      by (simp add: s'_def)
  next
    case other: False
    then have "unmapped s' = unmapped s"
      using False by (simp add: s'_def add_mission_def Let_def)
    then have "unmapped_count s' Mission piece = unmapped_count s Mission piece"
      by (rule unmapped_count_same)
    then have "mission_invariant piece s'"
      using assms nj ad other by (auto simp: mission_invariant_def dict_get_set_add)
    then show ?thesis
      by (simp add: s'_def)
  qed
qed

lemma mission_invariant_exec:
  assumes "mission_invariant piece s" "pass_step st"
  shows "mission_invariant piece (exec st s)"
proof (cases st)
  case (Add_Id osd_id)
  then show ?thesis
    using assms by (simp add: mission_invariant_def unmapped_count_def)
next
  case (Place g other v osd_id)
  then have "g \<noteq> Mission"
    using assms(2) by auto
  then show ?thesis
    using Place assms(1) by (simp add: mission_invariant_place)
next
  case (Add_Mission m osd_id)
  then show ?thesis
    using assms(1) by (simp add: mission_invariant_add_mission)
qed

lemma mission_invariant_fold:
  assumes "mission_invariant piece s" "\<forall>st \<in> set sts. pass_step st"
  shows "mission_invariant piece (fold exec sts s)"
  using assms by (induction sts arbitrary: s) (simp_all add: mission_invariant_exec)

section \<open>The records and the identifiers of a pass\<close>

lemma unmapped_exec:
  assumes "pass_step st"
  shows "set (unmapped (exec st s)) \<subseteq> set (unmapped s) \<union> {r. record_ok r}"
proof (cases st)
  case (Add_Id osd_id)
  then show ?thesis by simp
next
  case (Place g other v osd_id)
  then have ok: "record_ok (g, v, osd_id)"
    using assms by (auto simp: record_ok_def)
  obtain c where "place_value g other v osd_id s = s
     \<or> place_value g other v osd_id s
          = s\<lparr>new_json := (new_json s)(g := set_add (new_json s g) c v),
                additions := additions s @ [(g, c, v)]\<rparr>
     \<or> place_value g other v osd_id s
          = s\<lparr>new_json := (new_json s)(g := set_add (new_json s g) c v),
                unmapped := unmapped s @ [(g, v, osd_id)]\<rparr>"
    using place_value_effect [of g other v osd_id s] by blast
  then have "set (unmapped (place_value g other v osd_id s))
               \<subseteq> insert (g, v, osd_id) (set (unmapped s))"
    by (elim disjE) auto
  then show ?thesis
    using Place ok by auto
next
  case (Add_Mission m osd_id)
  then show ?thesis
    by (auto simp: add_mission_def Let_def record_ok_def)
qed

lemma unmapped_fold:
  assumes "\<forall>st \<in> set sts. pass_step st"
  shows "set (unmapped (fold exec sts s)) \<subseteq> set (unmapped s) \<union> {r. record_ok r}"
  using assms
proof (induction sts arbitrary: s)
  case Nil
  then show ?case by simp
next
  case (Cons st sts)
  have "set (unmapped (fold exec sts (exec st s))) \<subseteq> set (unmapped (exec st s)) \<union> {r. record_ok r}"
    using Cons by simp
  moreover have "set (unmapped (exec st s)) \<subseteq> set (unmapped s) \<union> {r. record_ok r}"
    using Cons.prems by (simp add: unmapped_exec)
  ultimately show ?case
    by auto
qed

lemma ids_exec: "all_osd_ids (exec st s) = all_osd_ids s \<union> step_ids st"
  by (cases st)
     (auto simp: place_value_def add_to_category_def add_to_other_def add_mission_def Let_def
        split: option.splits)

lemma ids_fold: "all_osd_ids (fold exec sts s) = all_osd_ids s \<union> (\<Union>st \<in> set sts. step_ids st)"
  by (induction sts arbitrary: s) (auto simp: ids_exec)

lemma ids_value_steps: "(\<Union>st \<in> set (value_steps g obs). step_ids st) = snd ` set obs"
  by (induction obs) (auto simp: value_steps_def)

lemma ids_factor_steps: "(\<Union>st \<in> set (factor_steps s). step_ids st) = {}"
  by (simp add: factor_steps_def)

lemma ids_mission_pieces:
  "(\<Union>st \<in> set (map (\<lambda>piece. Add_Mission piece osd_id) ps). step_ids st) = {}"
  by simp

lemma ids_mission_steps: "(\<Union>st \<in> set (mission_steps obs). step_ids st) = snd ` set obs"
  by (induction obs) (auto simp: mission_steps_def)

lemma ids_pass_steps:
  "(\<Union>st \<in> set (pass_steps s). step_ids st) =
     snd ` set (assay_observations s) \<union> snd ` set (organism_observations s)
     \<union> snd ` set (material_observations s) \<union> snd ` set (mission_observations s)"
proof -
  have "(\<Union>st \<in> set (pass_steps s). step_ids st) =
      (\<Union>st \<in> set (value_steps Assay_technology_type (assay_observations s)). step_ids st)
      \<union> (\<Union>st \<in> set (factor_steps s). step_ids st)
      \<union> (\<Union>st \<in> set (value_steps Organism (organism_observations s)). step_ids st)
      \<union> (\<Union>st \<in> set (value_steps Material_type (material_observations s)). step_ids st)
      \<union> (\<Union>st \<in> set (mission_steps (mission_observations s)). step_ids st)"
    unfolding pass_steps_def set_append UN_Un by (simp only: Un_assoc)
  then show ?thesis
    by (simp only: ids_value_steps ids_factor_steps ids_mission_steps Un_empty_right)
qed

lemma process_factors_effect:
  "all_osd_ids (process_factors s) = all_osd_ids s
   \<and> set (unmapped (process_factors s))
       \<subseteq> set (unmapped s) \<union> {r. \<exists>v. r = (Factor, v, Some ''schema'')}"
proof -
  have "all_osd_ids (fold exec (map (\<lambda>col. Place Factor ''other'' (factor_name col) (Some ''schema'')) cols) t)
          = all_osd_ids t
        \<and> set (unmapped (fold exec
              (map (\<lambda>col. Place Factor ''other'' (factor_name col) (Some ''schema'')) cols) t))
            \<subseteq> set (unmapped t) \<union> {r. \<exists>v. r = (Factor, v, Some ''schema'')}" for cols t
  proof (induction cols arbitrary: t)
    case Nil
    then show ?case by simp
  next
    case (Cons col cols)
    let ?t' = "place_value Factor ''other'' (factor_name col) (Some ''schema'') t"
    obtain c where "?t' = t
       \<or> ?t' = t\<lparr>new_json := (new_json t)(Factor := set_add (new_json t Factor) c (factor_name col)),
                  additions := additions t @ [(Factor, c, factor_name col)]\<rparr>
       \<or> ?t' = t\<lparr>new_json := (new_json t)(Factor := set_add (new_json t Factor) c (factor_name col)),
                  unmapped := unmapped t @ [(Factor, factor_name col, Some ''schema'')]\<rparr>"
      using place_value_effect [of Factor "''other''" "factor_name col" "Some ''schema''" t] by blast
    then have step: "all_osd_ids ?t' = all_osd_ids t
        \<and> set (unmapped ?t') \<subseteq> insert (Factor, factor_name col, Some ''schema'') (set (unmapped t))"
      by (elim disjE) auto
    show ?case
      using Cons.IH [of ?t'] step by auto
  qed
  then show ?thesis
    by (simp add: process_factors_eq factor_steps_def)
qed

section \<open>Fallback routing\<close>

lemma init_generator_fields:
  assumes "init_generator doc a f o' m mi = Inr s0"
  shows "additions s0 = [] \<and> unmapped s0 = [] \<and> all_osd_ids s0 = {}
         \<and> new_json s0 Mission = []"
proof -
  define es where "es = existing_structure s0"
  have "es Mission = None" and "s0 = new_generator es a f o' m mi"
    using init_generator_Inr [OF assms] by (simp_all add: wf_structure_def es_def)
  then show ?thesis
    by (simp add: new_generator_def initialize_from_existing_def)
qed

lemma init_value_invariant:
  assumes init: "init_generator doc a f o' m mi = Inr s0"
    and "g \<noteq> Mission" "\<not> normalized_match s0 g v"
  shows "value_invariant g v s0"
proof -
  have s0: "wf_structure (existing_structure s0)"
    "s0 = new_generator (existing_structure s0) a f o' m mi"
    using init_generator_Inr [OF init] by simp_all
  obtain categories where es: "existing_structure s0 g = Some categories"
    using assms(2) s0(1) by (auto simp: wf_structure_def)
  have nj: "new_json s0 g = categories"
    using new_generator_new_json [OF s0(1) es, of a f o' m mi] s0(2) by simp
  have "v \<notin> dict_get categories k" for k
  proof
    assume "v \<in> dict_get categories k"
    then obtain vs where "(k, vs) \<in> set categories" "v \<in> vs"
      using dict_get_mem_entry by blast
    then have "normalized_match s0 g v"
      using es by (auto simp: normalized_match_def)
    then show False
      using assms(3) by simp
  qed
  then show ?thesis
    using nj init_generator_fields [OF init]
    by (simp add: value_invariant_def unmapped_count_def)
qed

lemma pass_routes_unmatched:
  assumes init: "init_generator doc a f o' m mi = Inr s0"
    and pass: "process_api_data s0 = Inr s'"
    and g: "g \<noteq> Mission" and obs: "v \<in> observed s0 g"
    and none: "\<not> normalized_match s0 g v"
  shows "v \<in> dict_get (new_json s' g) (other_category g) \<and> unmapped_count s' g v = 1
         \<and> (\<forall>c. (g, c, v) \<notin> set (additions s'))"
proof -
  have s': "s' = fold exec (pass_steps s0) s0"
    using pass by (simp add: process_api_data_eq)
  have f0: "find_category_for_value s0 v g = None"
    using none by (simp add: find_category_None)
  have "existing_structure s' = existing_structure s0"
    using pass by (rule pass_snapshot_kept)
  then have f': "find_category_for_value s' v g = None"
    using f0 find_category_cong [of s' s0 v g] by simp
  have inv: "value_invariant g v s'"
    unfolding s'
    using init_value_invariant [OF init g none] pass_steps_ok [of _ s0] g f0
    by (intro value_invariant_fold) auto
  obtain osd_id where "Place g (other_category g) v osd_id \<in> set (pass_steps s0)"
    using observed_step [OF obs g] by blast
  then have "settled (Place g (other_category g) v osd_id) s'"
    unfolding s' by (rule all_settled_after_fold)
  then have "v \<in> dict_get (new_json s' g) (other_category g)"
    using f' by (simp add: target_category_def)
  then show ?thesis
    using inv by (simp add: value_invariant_def)
qed

lemma pass_routes_mission:
  assumes init: "init_generator doc a f o' m mi = Inr s0"
    and pass: "process_api_data s0 = Inr s'"
    and obs: "piece \<in> observed s0 Mission"
  shows "piece \<in> dict_get (new_json s' Mission) (classify_mission piece)
         \<and> unmapped_count s' Mission piece
             = (if classify_mission piece = ''Other Missions'' then 1 else 0)
         \<and> (\<forall>c. (Mission, c, piece) \<notin> set (additions s'))"
proof -
  have s': "s' = fold exec (pass_steps s0) s0"
    using pass by (simp add: process_api_data_eq)
  have "mission_invariant piece s0"
    using init_generator_fields [OF init]
    by (simp add: mission_invariant_def unmapped_count_def dict_get_def)
  then have inv: "mission_invariant piece s'"
    unfolding s' using pass_steps_ok [of _ s0] by (intro mission_invariant_fold) auto
  obtain osd_id where "Add_Mission piece osd_id \<in> set (pass_steps s0)"
    using observed_mission_step [OF obs] by blast
  then have "settled (Add_Mission piece osd_id) s'"
    unfolding s' by (rule all_settled_after_fold)
  then have "piece \<in> dict_get (new_json s' Mission) (classify_mission piece)"
    by simp
  then show ?thesis
    using inv by (auto simp: mission_invariant_def)
qed

lemma pass_unmapped_ok:
  assumes pass: "process_api_data s = Inr s'" and r: "r \<in> set (unmapped s')"
  shows "r \<in> set (unmapped s) \<or> record_ok r"
proof -
  have "s' = fold exec (pass_steps s) s"
    using pass by (simp add: process_api_data_eq)
  then show ?thesis
    using unmapped_fold [of "pass_steps s" s] pass_steps_ok [of _ s] r by auto
qed

text \<open>
  C4. The generator \<open>s0\<close> is fresh from the constructor and \<open>s'\<close> is the generator after
  a full reconciliation pass. Every observed value of a snapshot grouping that has no
  normalized match in the snapshot of its grouping is in the grouping's fallback category,
  has exactly one unmapped record and has no addition record, however many rows carry it. Every observed mission piece is in
  the category the classifier gives it, has no addition record, and has exactly one
  unmapped record when that category is \<^verbatim>\<open>Other Missions\<close> and none otherwise; every
  unmapped record of the Mission grouping is of a piece classified as \<^verbatim>\<open>Other Missions\<close>.
\<close>

theorem fallback_routing:
  assumes "init_generator doc a f o' m mi = Inr s0" and "process_api_data s0 = Inr s'"
  shows "(\<forall>g v. g \<noteq> Mission \<longrightarrow> v \<in> observed s0 g \<longrightarrow>
            \<not> normalized_match s0 g v \<longrightarrow>
              v \<in> dict_get (new_json s' g) (other_category g)
              \<and> unmapped_count s' g v = 1
              \<and> (\<forall>c. (g, c, v) \<notin> set (additions s')))
         \<and> (\<forall>piece. piece \<in> observed s0 Mission \<longrightarrow>
              piece \<in> dict_get (new_json s' Mission) (classify_mission piece)
              \<and> unmapped_count s' Mission piece
                  = (if classify_mission piece = ''Other Missions'' then 1 else 0)
              \<and> (\<forall>c. (Mission, c, piece) \<notin> set (additions s')))
         \<and> (\<forall>v osd_id. (Mission, v, osd_id) \<in> set (unmapped s') \<longrightarrow>
              classify_mission v = ''Other Missions'')"
proof (intro conjI allI impI)
  fix g v
  assume "g \<noteq> Mission" "v \<in> observed s0 g" "\<not> normalized_match s0 g v"
  then have *: "v \<in> dict_get (new_json s' g) (other_category g) \<and> unmapped_count s' g v = 1
         \<and> (\<forall>c. (g, c, v) \<notin> set (additions s'))"
    by (rule pass_routes_unmatched [OF assms])
  show "v \<in> dict_get (new_json s' g) (other_category g)"
    using * by simp
  show "unmapped_count s' g v = 1"
    using * by simp
  show "(g, c, v) \<notin> set (additions s')" for c
    using * by simp
next
  fix piece
  assume "piece \<in> observed s0 Mission"
  then have *: "piece \<in> dict_get (new_json s' Mission) (classify_mission piece)
         \<and> unmapped_count s' Mission piece
             = (if classify_mission piece = ''Other Missions'' then 1 else 0)
         \<and> (\<forall>c. (Mission, c, piece) \<notin> set (additions s'))"
    by (rule pass_routes_mission [OF assms])
  show "piece \<in> dict_get (new_json s' Mission) (classify_mission piece)"
    using * by simp
  show "unmapped_count s' Mission piece
             = (if classify_mission piece = ''Other Missions'' then 1 else 0)"
    using * by simp
  show "(Mission, c, piece) \<notin> set (additions s')" for c
    using * by simp
next
  fix v osd_id
  assume "(Mission, v, osd_id) \<in> set (unmapped s')"
  then show "classify_mission v = ''Other Missions''"
    using pass_unmapped_ok [OF assms(2), of "(Mission, v, osd_id)"]
      init_generator_fields [OF assms(1)]
    by (simp add: record_ok_def)
qed

lemma wide_scenario_result:
  "\<exists>s. process_api_data wide_scenario = Inr s
      \<and> additions s = [(Organism, ''Rodents'', ''mus musculus'')]
      \<and> unmapped s = [(Assay_technology_type, ''Quantum Flux Sequencing'', Some ''OSD-7''),
                        (Factor, ''spaceflight'', Some ''schema''),
                        (Organism, ''Rattus norvegicus'', Some ''OSD-101''),
                        (Mission, ''Mystery-1'', Some ''OSD-1'')]
      \<and> all_osd_ids s = {Some ''OSD-7'', Some ''OSD-8'', Some ''OSD-100'', Some ''OSD-101'', Some ''OSD-1'', Some ''OSD-2''}"
  using wide_scenario_pass by (cases "process_api_data wide_scenario") simp_all

lemmas observed_eval =
  assay_observations_def organism_observations_def material_observations_def
  mission_observations_def column_observations_def row_observations_def cell_text_def
  factor_cols_def factor_name_def spec_pieces_def new_generator_def feed_of_def

lemma wide_scenario_constructed:
  "init_generator scenario_document (assay_data wide_scenario) (factor_data wide_scenario)
     (organism_data wide_scenario) (material_data wide_scenario) (mission_data wide_scenario)
   = Inr wide_scenario"
  by (simp add: init_generator_def scenario_extracted wide_scenario_def new_generator_def)

text \<open>
  The wider scenario: an unknown assay type on two rows, an unknown factor, a mission
  piece on two rows that no rule matches, and a piece of a named category.
\<close>

theorem fallback_routing_witness:
  "\<exists>s'. process_api_data wide_scenario = Inr s'
      \<and> ''Quantum Flux Sequencing''
           \<in> dict_get (new_json s' Assay_technology_type) ''Other Assay Types''
      \<and> unmapped_count s' Assay_technology_type ''Quantum Flux Sequencing'' = 1
      \<and> unmapped_count s' Factor ''spaceflight'' = 1
      \<and> unmapped_count s' Mission ''Mystery-1'' = 1
      \<and> unmapped_count s' Mission ''RR-5'' = 0
      \<and> ''RR-5'' \<in> dict_get (new_json s' Mission) ''Rodent Research''
      \<and> additions s' = [(Organism, ''Rodents'', ''mus musculus'')]"
proof -
  obtain s' where s': "process_api_data wide_scenario = Inr s'"
    and ad: "additions s' = [(Organism, ''Rodents'', ''mus musculus'')]"
    using wide_scenario_result by blast
  note route = fallback_routing [OF wide_scenario_constructed s']
  have es: "existing_structure wide_scenario
              = empty_structure(Organism \<mapsto> [(''Rodents'', {''Mus musculus''})])"
    by (simp add: wide_scenario_def new_generator_def scenario_structure_def)
  have o1: "''Quantum Flux Sequencing'' \<in> observed wide_scenario Assay_technology_type"
    by (simp add: wide_scenario_def observed_eval)
  have n1: "\<not> normalized_match wide_scenario Assay_technology_type ''Quantum Flux Sequencing''"
    by (simp add: normalized_match_def es empty_structure_def)
  have o2: "''spaceflight'' \<in> observed wide_scenario Factor"
    by (simp add: wide_scenario_def observed_eval string_eval)
  have n2: "\<not> normalized_match wide_scenario Factor ''spaceflight''"
    by (simp add: normalized_match_def es empty_structure_def)
  have o3: "''Mystery-1'' \<in> observed wide_scenario Mission"
    and o4: "''RR-5'' \<in> observed wide_scenario Mission"
    by (simp_all add: wide_scenario_def observed_eval string_eval)
  have c3: "classify_mission ''Mystery-1'' = ''Other Missions''"
    and c4: "classify_mission ''RR-5'' = ''Rodent Research''"
    by (simp_all add: classify_mission_def string_eval)
  note routed = route [THEN conjunct1, rule_format]
  note pieces = route [THEN conjunct2, THEN conjunct1, rule_format]
  have "''Quantum Flux Sequencing''
           \<in> dict_get (new_json s' Assay_technology_type) ''Other Assay Types''
      \<and> unmapped_count s' Assay_technology_type ''Quantum Flux Sequencing'' = 1"
    using routed [of Assay_technology_type "''Quantum Flux Sequencing''", OF _ o1 n1] by simp
  moreover have "unmapped_count s' Factor ''spaceflight'' = 1"
    using routed [of Factor "''spaceflight''", OF _ o2 n2] by simp
  moreover have "unmapped_count s' Mission ''Mystery-1'' = 1"
    using pieces [of "''Mystery-1''", OF o3] c3 by simp
  moreover have "unmapped_count s' Mission ''RR-5'' = 0
      \<and> ''RR-5'' \<in> dict_get (new_json s' Mission) ''Rodent Research''"
    using pieces [of "''RR-5''", OF o4] c4 by simp
  ultimately show ?thesis
    using s' ad by simp
qed

section \<open>The Factor feed\<close>

text \<open>
  C10. The Factor block adds no subject-identifier to the covered identifiers, and every
  unmapped record it appends is a Factor record that carries \<^verbatim>\<open>schema\<close>. After a full
  pass, every unmapped record of the Factor grouping that was not there before carries
  \<^verbatim>\<open>schema\<close>, and the covered identifiers are the ones from before and the first cells
  of the rows with a non-empty value of the assay, organism, material and mission feeds.
\<close>

theorem factor_schema_identifier:
  "all_osd_ids (process_factors self) = all_osd_ids self
   \<and> (\<forall>r \<in> set (unmapped (process_factors self)).
         r \<in> set (unmapped self) \<or> (\<exists>v. r = (Factor, v, Some ''schema'')))
   \<and> (process_api_data self = Inr s' \<longrightarrow>
        (\<forall>v osd_id. (Factor, v, osd_id) \<in> set (unmapped s') \<longrightarrow>
           (Factor, v, osd_id) \<in> set (unmapped self) \<or> osd_id = Some ''schema'')
        \<and> all_osd_ids s'
            = all_osd_ids self
              \<union> snd ` set (assay_observations self) \<union> snd ` set (organism_observations self)
              \<union> snd ` set (material_observations self) \<union> snd ` set (mission_observations self))"
proof -
  have 1: "all_osd_ids (process_factors self) = all_osd_ids self"
    and 2: "\<forall>r \<in> set (unmapped (process_factors self)).
              r \<in> set (unmapped self) \<or> (\<exists>v. r = (Factor, v, Some ''schema''))"
    using process_factors_effect [of self] by auto
  have 3: "(Factor, v, osd_id) \<in> set (unmapped self) \<or> osd_id = Some ''schema''"
    if "process_api_data self = Inr s'" "(Factor, v, osd_id) \<in> set (unmapped s')" for v osd_id
    using pass_unmapped_ok [OF that] by (auto simp: record_ok_def)
  have 4: "all_osd_ids s'
            = all_osd_ids self
              \<union> snd ` set (assay_observations self) \<union> snd ` set (organism_observations self)
              \<union> snd ` set (material_observations self) \<union> snd ` set (mission_observations self)"
    if "process_api_data self = Inr s'"
  proof -
    have "s' = fold exec (pass_steps self) self"
      using that by (simp add: process_api_data_eq)
    then show ?thesis
      by (simp only: ids_fold ids_pass_steps Un_assoc)
  qed
  show ?thesis
  proof (intro conjI impI allI)
    show "all_osd_ids (process_factors self) = all_osd_ids self"
      by (rule 1)
    show "\<forall>r \<in> set (unmapped (process_factors self)).
              r \<in> set (unmapped self) \<or> (\<exists>v. r = (Factor, v, Some ''schema''))"
      by (rule 2)
  next
    fix v osd_id
    assume "process_api_data self = Inr s'" "(Factor, v, osd_id) \<in> set (unmapped s')"
    then show "(Factor, v, osd_id) \<in> set (unmapped self) \<or> osd_id = Some ''schema''"
      by (rule 3)
  next
    assume "process_api_data self = Inr s'"
    then show "all_osd_ids s'
            = all_osd_ids self
              \<union> snd ` set (assay_observations self) \<union> snd ` set (organism_observations self)
              \<union> snd ` set (material_observations self) \<union> snd ` set (mission_observations self)"
      by (rule 4)
  qed
qed

text \<open>
  The wider scenario: the factor feed's row identifier \<^verbatim>\<open>OSD-7\<close> is covered through the
  assay feed only, and the Factor record carries \<^verbatim>\<open>schema\<close>.
\<close>

theorem factor_schema_identifier_witness:
  "\<exists>s'. process_api_data wide_scenario = Inr s'
      \<and> (Factor, ''spaceflight'', Some ''schema'') \<in> set (unmapped s')
      \<and> (\<forall>v osd_id. (Factor, v, osd_id) \<in> set (unmapped s') \<longrightarrow> osd_id = Some ''schema'')
      \<and> all_osd_ids s' = {Some ''OSD-7'', Some ''OSD-8'', Some ''OSD-100'', Some ''OSD-101'', Some ''OSD-1'', Some ''OSD-2''}
      \<and> all_osd_ids (process_factors wide_scenario) = {}"
proof -
  obtain s' where s': "process_api_data wide_scenario = Inr s'"
    and un: "unmapped s' = [(Assay_technology_type, ''Quantum Flux Sequencing'', Some ''OSD-7''),
                        (Factor, ''spaceflight'', Some ''schema''),
                        (Organism, ''Rattus norvegicus'', Some ''OSD-101''),
                        (Mission, ''Mystery-1'', Some ''OSD-1'')]"
    using wide_scenario_result by blast
  note fact = factor_schema_identifier [of wide_scenario s']
  note records = fact [THEN conjunct2, THEN conjunct2, rule_format, OF s', THEN conjunct1,
      rule_format]
  note ids = fact [THEN conjunct2, THEN conjunct2, rule_format, OF s', THEN conjunct2]
  have init: "unmapped wide_scenario = []" "all_osd_ids wide_scenario = {}"
    by (simp_all add: wide_scenario_def new_generator_def)
  have "\<forall>v osd_id. (Factor, v, osd_id) \<in> set (unmapped s') \<longrightarrow> osd_id = Some ''schema''"
    using records init by auto
  moreover have "all_osd_ids s' = {Some ''OSD-7'', Some ''OSD-8'', Some ''OSD-100'', Some ''OSD-101'', Some ''OSD-1'', Some ''OSD-2''}"
  proof -
    have "all_osd_ids s'
            = all_osd_ids wide_scenario
              \<union> snd ` set (assay_observations wide_scenario)
              \<union> snd ` set (organism_observations wide_scenario)
              \<union> snd ` set (material_observations wide_scenario)
              \<union> snd ` set (mission_observations wide_scenario)"
      by (rule ids)
    then show ?thesis
      by (simp add: init) (simp add: wide_scenario_def observed_eval insert_commute)
  qed
  moreover have "all_osd_ids (process_factors wide_scenario) = {}"
    using fact [THEN conjunct1] init by simp
  ultimately show ?thesis
    using s' un by simp
qed

end
